theory Spec2Isabelle
  imports Complex_Main
begin

section \<open>Edge request filter\<close>

text \<open>
  The edge filter (the default export of the edge function) reads two things of a request:
  the path of its URL and its \<open>user-agent\<close> header. A request is modelled by exactly these:
  \<open>pathname\<close> is \<open>new URL(request.url).pathname\<close> and \<open>user_agent\<close> is
  \<open>request.headers.get("user-agent")\<close>, \<open>None\<close> standing for \<open>null\<close> (header absent).
  Strings are character lists; \<open>toLowerCase\<close> lowers the letters A to Z. That is all of
  it for a path, which the URL parser hands out percent-encoded in ASCII; in a header value
  a character beyond ASCII never lowers to an ASCII letter, so it cannot take part in a
  match with the two lists below.
\<close>

record request =
  pathname :: string
  user_agent :: "string option"

text \<open>
  The two outcomes of the handler: a fresh \<open>Response body status\<close>, or the result of
  \<open>context.next()\<close>, which is called without arguments, so the next handler of the chain
  receives the request as it came in.
\<close>

datatype outcome = Response string nat | Next

definition upper_letters :: string where
  "upper_letters = ''ABCDEFGHIJKLMNOPQRSTUVWXYZ''"

definition lower_letters :: string where
  "lower_letters = ''abcdefghijklmnopqrstuvwxyz''"

definition lower_char :: "char \<Rightarrow> char" where
  "lower_char c = (case map_of (zip upper_letters lower_letters) c of None \<Rightarrow> c | Some l \<Rightarrow> l)"

definition toLowerCase :: "string \<Rightarrow> string" where
  "toLowerCase s = map lower_char s"

text \<open>\<open>s.endsWith(ext)\<close>: the last \<open>length ext\<close> characters of \<open>s\<close> are \<open>ext\<close>.\<close>

definition endsWith :: "string \<Rightarrow> string \<Rightarrow> bool" where
  "endsWith s ext = (length ext \<le> length s \<and> drop (length s - length ext) s = ext)"

text \<open>\<open>s.includes(sub)\<close>: \<open>sub\<close> occurs at some position of \<open>s\<close>, searched from the left.\<close>

fun str_includes :: "string \<Rightarrow> string \<Rightarrow> bool" where
  "str_includes [] sub = (sub = [])"
| "str_includes (c # cs) sub = (take (length sub) (c # cs) = sub \<or> str_includes cs sub)"

definition blockedExtensions :: "string list" where
  "blockedExtensions = [''.php'', ''.env'', ''.git'', ''.sql'', ''.bak'', ''.config'']"

definition blockedBots :: "string list" where
  "blockedBots = [''semrushbot'', ''ahrefsbot'', ''dotbot'', ''mj12bot'', ''petalbot'',
     ''bytespider'', ''liebaofast'']"

text \<open>\<open>request.headers.get("user-agent") || ""\<close>: \<open>null\<close> becomes the empty string.\<close>

definition header_or_empty :: "string option \<Rightarrow> string" where
  "header_or_empty h = (case h of None \<Rightarrow> [] | Some v \<Rightarrow> v)"

definition edge_filter :: "request \<Rightarrow> outcome" where
  "edge_filter r =
     (let path = toLowerCase (pathname r);
          userAgent = toLowerCase (header_or_empty (user_agent r))
      in if list_ex (\<lambda>ext. endsWith path ext) blockedExtensions
           then Response ''Access Denied'' 403
         else if list_ex (\<lambda>bot. str_includes userAgent bot) blockedBots
           then Response ''Access Denied'' 403
         else Next)"

text \<open>Requests of the spec's examples.\<close>

definition browser_ua :: string where
  "browser_ua = ''Mozilla/5.0 (X11; Linux x86_64) AppleWebKit/537.36 Chrome/120.0 Safari/537.36''"

definition ahrefs_ua :: string where
  "ahrefs_ua = ''Mozilla/5.0 (compatible; AhrefsBot/7.0; +http://ahrefs.com/robot/)''"

definition req :: "string \<Rightarrow> string option \<Rightarrow> request" where
  "req p ua = \<lparr>pathname = p, user_agent = ua\<rparr>"

section \<open>JavaScript numbers\<close>

text \<open>
  A JavaScript number is an IEEE 754 binary64 value: a finite double, one of the two
  infinities or NaN. A finite double is modelled by the real number it stands for, and
  every arithmetic operation rounds its exact result to the nearest double, ties to the
  even significand (\<open>fl\<close> below): 53 bits of significand, exponents from -1022 to 1023,
  subnormal numbers on the grid of \<open>2^-1074\<close>, overflow to an infinity. The two zeros are
  not told apart (a zero divisor counts as \<open>+0\<close>, which is what the subtractions and box
  sizes of this program give). The special values follow IEEE 754: \<open>0/0\<close> and
  \<open>Infinity - Infinity\<close> are NaN, \<open>x/0\<close> is an infinity, every comparison with NaN is
  false, and \<open>Math.min\<close> and \<open>Math.max\<close> return NaN when an argument is NaN.
  The numbers the browser hands to the script (offsets, sizes, pointer coordinates) are
  doubles as well; they enter the model as reals, and a theorem that depends on their being
  doubles says so (\<open>is_double\<close>).
\<close>

datatype jsnum = Num real | PosInf | NegInf | NaN

text \<open>Rounding a real to the nearest integer, a tie going to the even one.\<close>

definition round_even :: "real \<Rightarrow> int" where
  "round_even y =
     (let f = \<lfloor>y\<rfloor>; r = y - of_int f
      in if r < 1 / 2 then f else if 1 / 2 < r then f + 1
         else if even f then f else f + 1)"

text \<open>The binary exponent of a real, held at -1022 in the subnormal range, and the spacing
  of the doubles around it.\<close>

definition expo :: "real \<Rightarrow> int" where
  "expo x = (if x = 0 then - 1022 else max \<lfloor>log 2 \<bar>x\<bar>\<rfloor> (- 1022))"

definition ulp :: "real \<Rightarrow> real" where
  "ulp x = 2 powi (expo x - 52)"

definition rnd :: "real \<Rightarrow> real" where
  "rnd x = of_int (round_even (x / ulp x)) * ulp x"

text \<open>The double nearest to a real; a result of magnitude \<open>2^1024\<close> is an infinity.\<close>

definition fl :: "real \<Rightarrow> jsnum" where
  "fl x =
     (let v = rnd x
      in if 2 ^ 1024 \<le> v then PosInf else if v \<le> - (2 ^ 1024) then NegInf else Num v)"

definition is_double :: "real \<Rightarrow> bool" where
  "is_double x \<longleftrightarrow> fl x = Num x"

text \<open>A decimal literal of the source denotes the double nearest to it.\<close>

definition lit :: "real \<Rightarrow> jsnum" where
  "lit x = fl x"

fun jneg :: "jsnum \<Rightarrow> jsnum" where
  "jneg (Num a) = Num (- a)"
| "jneg PosInf = NegInf"
| "jneg NegInf = PosInf"
| "jneg NaN = NaN"

fun jadd :: "jsnum \<Rightarrow> jsnum \<Rightarrow> jsnum" where
  "jadd (Num a) (Num b) = fl (a + b)"
| "jadd NaN _ = NaN"
| "jadd _ NaN = NaN"
| "jadd PosInf NegInf = NaN"
| "jadd NegInf PosInf = NaN"
| "jadd PosInf _ = PosInf"
| "jadd _ PosInf = PosInf"
| "jadd NegInf _ = NegInf"
| "jadd _ NegInf = NegInf"

definition jsub :: "jsnum \<Rightarrow> jsnum \<Rightarrow> jsnum" where
  "jsub a b = jadd a (jneg b)"

fun negative :: "jsnum \<Rightarrow> bool" where
  "negative (Num a) = (a < 0)"
| "negative NegInf = True"
| "negative _ = False"

fun jmul :: "jsnum \<Rightarrow> jsnum \<Rightarrow> jsnum" where
  "jmul (Num a) (Num b) = fl (a * b)"
| "jmul NaN _ = NaN"
| "jmul _ NaN = NaN"
| "jmul x y = (if x = Num 0 \<or> y = Num 0 then NaN
               else if negative x = negative y then PosInf else NegInf)"

fun jdiv :: "jsnum \<Rightarrow> jsnum \<Rightarrow> jsnum" where
  "jdiv (Num a) (Num b) =
     (if b = 0 then (if a = 0 then NaN else if 0 < a then PosInf else NegInf)
      else fl (a / b))"
| "jdiv NaN _ = NaN"
| "jdiv _ NaN = NaN"
| "jdiv (Num a) _ = Num 0"
| "jdiv x (Num b) = (if negative x = (b < 0) then PosInf else NegInf)"
| "jdiv _ _ = NaN"

fun jlt :: "jsnum \<Rightarrow> jsnum \<Rightarrow> bool" where
  "jlt (Num a) (Num b) = (a < b)"
| "jlt NaN _ = False"
| "jlt _ NaN = False"
| "jlt PosInf _ = False"
| "jlt _ NegInf = False"
| "jlt NegInf _ = True"
| "jlt _ PosInf = True"

fun Math_max :: "jsnum \<Rightarrow> jsnum \<Rightarrow> jsnum" where
  "Math_max NaN _ = NaN"
| "Math_max _ NaN = NaN"
| "Math_max a b = (if jlt a b then b else a)"

fun Math_min :: "jsnum \<Rightarrow> jsnum \<Rightarrow> jsnum" where
  "Math_min NaN _ = NaN"
| "Math_min _ NaN = NaN"
| "Math_min a b = (if jlt b a then b else a)"

fun Math_abs :: "jsnum \<Rightarrow> jsnum" where
  "Math_abs (Num a) = Num \<bar>a\<bar>"
| "Math_abs NaN = NaN"
| "Math_abs _ = PosInf"

text \<open>\<open>Math.sin\<close> is left to the implementation by the language; it is taken here as the
  correctly rounded sine. No statement below depends on its values.\<close>

fun Math_sin :: "jsnum \<Rightarrow> jsnum" where
  "Math_sin (Num a) = fl (sin a)"
| "Math_sin _ = NaN"

definition Math_PI :: jsnum where
  "Math_PI = fl pi"

text \<open>
  \<open>x.toFixed(d)\<close> prints \<open>x\<close> with \<open>d\<close> decimals, rounding halves away from zero; NaN and
  the infinities print as themselves, and so does a value of magnitude \<open>10^21\<close> or more.
  The digits are those of the exact value of the double, so no rounding of the arithmetic
  is involved. The model keeps the number that is printed.
\<close>

fun toFixed :: "nat \<Rightarrow> jsnum \<Rightarrow> jsnum" where
  "toFixed d (Num x) =
     (if 10 ^ 21 \<le> \<bar>x\<bar> then Num x
      else Num (sgn x * of_int \<lfloor>\<bar>x\<bar> * 10 ^ d + 1 / 2\<rfloor> / 10 ^ d))"
| "toFixed d x = x"

text \<open>The two utilities of the script.\<close>

definition lerp :: "jsnum \<Rightarrow> jsnum \<Rightarrow> jsnum \<Rightarrow> jsnum" where
  "lerp start end factor = jadd start (jmul (jsub end start) factor)"

definition clamp :: "jsnum \<Rightarrow> jsnum \<Rightarrow> jsnum \<Rightarrow> jsnum" where
  "clamp num mn mx = Math_min (Math_max num mn) mx"

text \<open>A number of the closed interval from 0 to 1 (NaN and the infinities are not).\<close>

fun in_unit :: "jsnum \<Rightarrow> bool" where
  "in_unit (Num x) = (0 \<le> x \<and> x \<le> 1)"
| "in_unit _ = False"

text \<open>A value a JavaScript number can take: its finite values are doubles.\<close>

fun representable :: "jsnum \<Rightarrow> bool" where
  "representable (Num x) = is_double x"
| "representable _ = True"

section \<open>The page and the controller's state\<close>

text \<open>
  DOM elements are handles. What the script caches of the page at start-up (its \<open>dom\<close>
  object, the footer it looks up, the \<open>data-product\<close> name of each section and the focusable
  items of the menu) does not change afterwards and is the record \<open>dom\<close>; an absent element
  (\<open>querySelector\<close> returning \<open>null\<close>) is \<open>None\<close>.
\<close>

type_synonym element = nat

record dom =
  body :: element
  html :: element
  header :: "element option"
  heroStatement :: "element option"
  heroSubtext :: "element option"
  scrollIndicator :: "element option"
  productSections :: "element list"
  revealElements :: "element list"
  navToggle :: "element option"
  navMenu :: "element option"
  cursorGlow :: "element option"
  magneticElements :: "element list"
  footer :: "element option"
  product :: "element \<Rightarrow> string"
  focusableElements :: "element list"

text \<open>What the browser reports when a handler runs: scroll offset, viewport height, the
  scroll height of the body and the bounding box of each element.\<close>

record DOMRect =
  rect_left :: real
  rect_top :: real
  rect_bottom :: real
  rect_width :: real
  rect_height :: real

record viewport =
  scrollY :: real
  innerHeight :: real
  scrollHeight :: real
  getBoundingClientRect :: "element \<Rightarrow> DOMRect"

text \<open>Values written to style properties: a bare number, a length in pixels, an angle in
  degrees, a keyword, or a translation.\<close>

datatype cssval = CNum jsnum | CPx jsnum | CDeg jsnum | CStr string | CTranslate jsnum jsnum

text \<open>Callbacks scheduled with \<open>setTimeout\<close>, each kept with its delay in milliseconds.\<close>

datatype timer = IntroHeader | IntroHero | IntroScroll | FocusFirst

text \<open>
  Everything the script mutates: its \<open>state\<close> object and module variables, and of the page
  the class lists, the style properties, the \<open>aria-expanded\<close> attribute of the nav toggle,
  \<open>body.dataset.activeProduct\<close>, the focused element, the pending timers and the targets
  each intersection observer is watching.
\<close>

record state =
  prefersReducedMotion :: bool
  isTouch :: bool
  activeProduct :: "string option"
  pressure_current :: jsnum
  lastScrollPosition :: "real option"
  currentScroll :: real
  mouseX :: jsnum
  mouseY :: jsnum
  targetMouseX :: real
  targetMouseY :: real
  classList :: "element \<Rightarrow> string set"
  style :: "element \<Rightarrow> string \<Rightarrow> cssval option"
  aria_expanded :: "string option"
  body_activeProduct :: "string option"
  activeElement :: "element option"
  timers :: "(nat \<times> timer) list"
  revealObserved :: "element set"
  productObserved :: "element set"
  footerObserved :: "element set"

record entry =
  target :: element
  isIntersecting :: bool

text \<open>The state when the script starts: the literals of the \<open>state\<close> object and of the
  module variables, the two media flags, the scroll offset, and the page as marked up.\<close>

definition script_start ::
  "bool \<Rightarrow> bool \<Rightarrow> real \<Rightarrow> (element \<Rightarrow> string set) \<Rightarrow> string option \<Rightarrow> element option \<Rightarrow> state" where
  "script_start reduced touch y markup aria focused =
     \<lparr>prefersReducedMotion = reduced, isTouch = touch, activeProduct = None,
      pressure_current = Num 0, lastScrollPosition = None, currentScroll = y,
      mouseX = Num 0, mouseY = Num 0, targetMouseX = 0, targetMouseY = 0,
      classList = markup, style = (\<lambda>_ _. None), aria_expanded = aria,
      body_activeProduct = None, activeElement = focused, timers = [],
      revealObserved = {}, productObserved = {}, footerObserved = {}\<rparr>"

definition CONFIG_motion_parallax :: real where
  "CONFIG_motion_parallax = 0.08"

text \<open>The blend factors passed to \<open>lerp\<close> by the glow follower and by the pressure gauge.\<close>

definition glow_factor :: real where
  "glow_factor = 0.15"

definition pressure_factor :: real where
  "pressure_factor = 0.03"

subsection \<open>DOM operations\<close>

definition classList_add :: "element \<Rightarrow> string \<Rightarrow> state \<Rightarrow> state" where
  "classList_add el c s = s\<lparr>classList := (classList s)(el := insert c (classList s el))\<rparr>"

definition classList_remove :: "element \<Rightarrow> string \<Rightarrow> state \<Rightarrow> state" where
  "classList_remove el c s = s\<lparr>classList := (classList s)(el := classList s el - {c})\<rparr>"

definition classList_toggle :: "element \<Rightarrow> string \<Rightarrow> state \<Rightarrow> state" where
  "classList_toggle el c s =
     (if c \<in> classList s el then classList_remove el c s else classList_add el c s)"

definition setProperty :: "element \<Rightarrow> string \<Rightarrow> cssval \<Rightarrow> state \<Rightarrow> state" where
  "setProperty el p v s = s\<lparr>style := (style s)(el := (style s el)(p \<mapsto> v))\<rparr>"

definition focus :: "element \<Rightarrow> state \<Rightarrow> state" where
  "focus el s = s\<lparr>activeElement := Some el\<rparr>"

definition setTimeout :: "timer \<Rightarrow> nat \<Rightarrow> state \<Rightarrow> state" where
  "setTimeout cb delay s = s\<lparr>timers := timers s @ [(delay, cb)]\<rparr>"

text \<open>\<open>if (el) f(el)\<close> and \<open>el?.f()\<close>: nothing happens when the element is absent.\<close>

fun if_present :: "element option \<Rightarrow> (element \<Rightarrow> state \<Rightarrow> state) \<Rightarrow> state \<Rightarrow> state" where
  "if_present None f s = s"
| "if_present (Some el) f s = f el s"

text \<open>\<open>xs.forEach(f)\<close>, the state threaded through the calls from left to right.\<close>

fun forEach :: "'a list \<Rightarrow> ('a \<Rightarrow> state \<Rightarrow> state) \<Rightarrow> state \<Rightarrow> state" where
  "forEach [] f s = s"
| "forEach (x # xs) f s = forEach xs f (f x s)"

text \<open>\<open>document.querySelector('[data-product="name"]')\<close>: the first section of that name.\<close>

definition querySelector_product :: "dom \<Rightarrow> string \<Rightarrow> element option" where
  "querySelector_product d name = find (\<lambda>el. product d el = name) (productSections d)"

definition firstFocusable :: "dom \<Rightarrow> element option" where
  "firstFocusable d = (case focusableElements d of [] \<Rightarrow> None | x # _ \<Rightarrow> Some x)"

definition lastFocusable :: "dom \<Rightarrow> element option" where
  "lastFocusable d = (case focusableElements d of [] \<Rightarrow> None | x # xs \<Rightarrow> Some (last (x # xs)))"

section \<open>The controller\<close>

subsection \<open>Page intro and observers\<close>

definition initIntro :: "dom \<Rightarrow> state \<Rightarrow> state" where
  "initIntro d s =
     (if prefersReducedMotion s
      then if_present (header d) (\<lambda>h. setProperty h ''opacity'' (CStr ''1''))
             (classList_add (html d) ''is-loaded'' s)
      else setTimeout IntroScroll 1400 (setTimeout IntroHero 1000 (setTimeout IntroHeader 700 s)))"

text \<open>What each scheduled callback does when its timer fires.\<close>

fun fire :: "dom \<Rightarrow> timer \<Rightarrow> state \<Rightarrow> state" where
  "fire d IntroHeader s =
     classList_add (html d) ''intro-step-1''
       (if_present (header d) (\<lambda>h. classList_add h ''is-visible'') s)"
| "fire d IntroHero s =
     classList_add (html d) ''intro-step-2''
       (if_present (heroSubtext d) (\<lambda>h. classList_add h ''is-visible'')
         (if_present (heroStatement d) (\<lambda>h. classList_add h ''is-visible'') s))"
| "fire d IntroScroll s = if_present (scrollIndicator d) (\<lambda>h. classList_add h ''is-visible'') s"
| "fire d FocusFirst s = if_present (firstFocusable d) focus s"

definition reveal_observe :: "element \<Rightarrow> state \<Rightarrow> state" where
  "reveal_observe el s = s\<lparr>revealObserved := insert el (revealObserved s)\<rparr>"

definition reveal_unobserve :: "element \<Rightarrow> state \<Rightarrow> state" where
  "reveal_unobserve el s = s\<lparr>revealObserved := revealObserved s - {el}\<rparr>"

definition initScrollReveal :: "dom \<Rightarrow> state \<Rightarrow> state" where
  "initScrollReveal d s =
     (if prefersReducedMotion s
      then forEach (revealElements d) (\<lambda>el. classList_add el ''is-visible'') s
      else forEach (revealElements d) reveal_observe s)"

text \<open>The callback of the reveal observer, run on the entries the browser delivers.\<close>

definition revealCallback :: "entry list \<Rightarrow> state \<Rightarrow> state" where
  "revealCallback entries s =
     forEach entries
       (\<lambda>e s. if isIntersecting e
               then reveal_unobserve (target e) (classList_add (target e) ''is-visible'' s)
               else s) s"

definition product_observe :: "element \<Rightarrow> state \<Rightarrow> state" where
  "product_observe el s = s\<lparr>productObserved := insert el (productObserved s)\<rparr>"

definition initProductObserver :: "dom \<Rightarrow> state \<Rightarrow> state" where
  "initProductObserver d s = forEach (productSections d) product_observe s"

text \<open>The callback of the active-section observer. The title it formats is never written
  (the assignment is commented out in the source), so that part has no effect.\<close>

definition productEntry :: "dom \<Rightarrow> entry \<Rightarrow> state \<Rightarrow> state" where
  "productEntry d e s =
     (if isIntersecting e
      then (let section = target e;
                productName = product d section;
                s1 = forEach (productSections d) (\<lambda>x. classList_remove x ''is-active'') s;
                s2 = classList_add section ''is-active'' s1
            in if activeProduct s2 \<noteq> Some productName
               then s2\<lparr>activeProduct := Some productName, body_activeProduct := Some productName\<rparr>
               else s2)
      else s)"

definition productCallback :: "dom \<Rightarrow> entry list \<Rightarrow> state \<Rightarrow> state" where
  "productCallback d entries s = forEach entries (productEntry d) s"

definition initFooterObserver :: "dom \<Rightarrow> state \<Rightarrow> state" where
  "initFooterObserver d s =
     (case footer d of None \<Rightarrow> s
      | Some f \<Rightarrow> s\<lparr>footerObserved := insert f (footerObserved s)\<rparr>)"

definition footerCallback :: "dom \<Rightarrow> entry list \<Rightarrow> state \<Rightarrow> state" where
  "footerCallback d entries s =
     forEach entries
       (\<lambda>e s. if isIntersecting e
               then classList_add (body d) ''is-footer-visible'' s
               else classList_remove (body d) ''is-footer-visible'' s) s"

subsection \<open>Pointer sampling and the motion loop\<close>

definition spotlight :: "viewport \<Rightarrow> real \<Rightarrow> real \<Rightarrow> element \<Rightarrow> state \<Rightarrow> state" where
  "spotlight v clientX clientY section s =
     (let rect = getBoundingClientRect v section
      in if rect_top rect < innerHeight v \<and> rect_bottom rect > 0
         then (let x = jdiv (jsub (Num clientX) (Num (rect_left rect))) (Num (rect_width rect));
                   y = jdiv (jsub (Num clientY) (Num (rect_top rect))) (Num (rect_height rect))
               in setProperty section ''--my'' (CNum (toFixed 3 y))
                    (setProperty section ''--mx'' (CNum (toFixed 3 x)) s))
         else s)"

definition onMouseMove :: "dom \<Rightarrow> viewport \<Rightarrow> real \<Rightarrow> real \<Rightarrow> state \<Rightarrow> state" where
  "onMouseMove d v clientX clientY s =
     (let s1 = s\<lparr>targetMouseX := clientX, targetMouseY := clientY\<rparr>
      in if \<not> isTouch s1 \<and> \<not> prefersReducedMotion s1
         then forEach (productSections d) (spotlight v clientX clientY) s1
         else s1)"

definition parallax :: "viewport \<Rightarrow> element \<Rightarrow> state \<Rightarrow> state" where
  "parallax v section s =
     (if ''is-active'' \<notin> classList s section then s
      else (let rect = getBoundingClientRect v section;
                center = jdiv (Num (innerHeight v)) (Num 2);
                sectionCenter = jadd (Num (rect_top rect)) (jdiv (Num (rect_height rect)) (Num 2));
                dist = jsub sectionCenter center;
                yHero = clamp (jmul dist (lit CONFIG_motion_parallax)) (Num (- 50)) (Num 50);
                yMedia = clamp (jmul dist (jmul (lit CONFIG_motion_parallax) (Num 1.5)))
                           (Num (- 80)) (Num 80)
            in setProperty section ''--p-media-y'' (CPx (toFixed 2 yMedia))
                 (setProperty section ''--p-hero-y'' (CPx (toFixed 2 yHero)) s)))"

definition updateParallax :: "dom \<Rightarrow> viewport \<Rightarrow> state \<Rightarrow> state" where
  "updateParallax d v s =
     (if prefersReducedMotion s \<or> isTouch s then s
      else forEach (productSections d) (parallax v) s)"

definition updateCursorGlow :: "dom \<Rightarrow> state \<Rightarrow> state" where
  "updateCursorGlow d s =
     (case cursorGlow d of None \<Rightarrow> s
      | Some glow \<Rightarrow>
          if isTouch s \<or> prefersReducedMotion s then s
          else (let mx = lerp (mouseX s) (Num (targetMouseX s)) (lit glow_factor);
                    my = lerp (mouseY s) (Num (targetMouseY s)) (lit glow_factor);
                    vx = Math_abs (jsub (Num (targetMouseX s)) mx);
                    vy = Math_abs (jsub (Num (targetMouseY s)) my);
                    vel = Math_min (jadd vx vy) (Num 50)
                in setProperty glow ''--cv'' (CNum (toFixed 1 vel))
                     (setProperty glow ''--cy'' (CPx (toFixed 1 my))
                       (setProperty glow ''--cx'' (CPx (toFixed 1 mx))
                         (s\<lparr>mouseX := mx, mouseY := my\<rparr>)))))"

definition scroll_progress :: "viewport \<Rightarrow> real \<Rightarrow> jsnum" where
  "scroll_progress v cur =
     (let limit = jsub (Num (scrollHeight v)) (Num (innerHeight v))
      in clamp (jdiv (Num cur) limit) (Num 0) (Num 1))"

definition updateScrollProgress :: "dom \<Rightarrow> viewport \<Rightarrow> state \<Rightarrow> state" where
  "updateScrollProgress d v s =
     (let progress = scroll_progress v (currentScroll s);
          s1 = setProperty (body d) ''--scroll-progress'' (CNum (toFixed 4 progress)) s
      in if currentScroll s1 > 100
         then if_present (header d) (\<lambda>h. classList_add h ''is-scrolled'') s1
         else if_present (header d) (\<lambda>h. classList_remove h ''is-scrolled'') s1)"

text \<open>Traversal progress of a section: 0 when it enters at the bottom, 1 when it leaves at
  the top.\<close>

definition traversal :: "viewport \<Rightarrow> DOMRect \<Rightarrow> jsnum" where
  "traversal v rect =
     jsub (Num 1) (jdiv (Num (rect_bottom rect)) (jadd (Num (rect_height rect)) (Num (innerHeight v))))"

definition updateBurrGeometry :: "dom \<Rightarrow> viewport \<Rightarrow> state \<Rightarrow> state" where
  "updateBurrGeometry d v s =
     (if prefersReducedMotion s then s
      else case querySelector_product d ''stonewave'' of None \<Rightarrow> s
      | Some grinderSection \<Rightarrow>
          (let rect = getBoundingClientRect v grinderSection;
               height = innerHeight v
           in if rect_top rect < height \<and> rect_bottom rect > 0
              then (let progress = traversal v rect;
                        opacity = Math_sin (jmul (clamp progress (Num 0) (Num 1)) Math_PI);
                        rotation = jmul progress (Num 360)
                    in setProperty grinderSection ''--burr-rotate'' (CDeg (toFixed 1 rotation))
                         (setProperty grinderSection ''--burr-opacity'' (CNum (toFixed 3 opacity)) s))
              else s))"

text \<open>The target of the pressure gauge: 0 while the section is off screen, else its
  traversal progress clamped to the unit interval.\<close>

definition pressure_target :: "viewport \<Rightarrow> DOMRect \<Rightarrow> jsnum" where
  "pressure_target v rect =
     (if rect_top rect < innerHeight v \<and> rect_bottom rect > 0
      then clamp (traversal v rect) (Num 0) (Num 1)
      else Num 0)"

definition updatePressureGauge :: "dom \<Rightarrow> viewport \<Rightarrow> state \<Rightarrow> state" where
  "updatePressureGauge d v s =
     (if prefersReducedMotion s then s
      else case querySelector_product d ''mariner-9'' of None \<Rightarrow> s
      | Some section \<Rightarrow>
          (let rect = getBoundingClientRect v section;
               target = pressure_target v rect;
               s1 = s\<lparr>pressure_current := lerp (pressure_current s) target (lit pressure_factor)\<rparr>
           in setProperty section ''--pressure-level'' (CNum (toFixed 4 (pressure_current s1))) s1))"

text \<open>One run of \<open>renderLoop\<close>; it asks for the next frame, which is the next \<open>Frame\<close> event.\<close>

definition renderLoop :: "dom \<Rightarrow> viewport \<Rightarrow> state \<Rightarrow> state" where
  "renderLoop d v s =
     updateScrollProgress d v
       (updatePressureGauge d v
         (updateBurrGeometry d v
           (updateCursorGlow d
             (updateParallax d v (s\<lparr>currentScroll := scrollY v\<rparr>)))))"

subsection \<open>Magnetic buttons\<close>

text \<open>\<open>initMagnetics\<close> registers its two listeners only when this holds.\<close>

definition magnetics_on :: "dom \<Rightarrow> state \<Rightarrow> bool" where
  "magnetics_on d s \<longleftrightarrow> \<not> (isTouch s \<or> prefersReducedMotion s \<or> length (magneticElements d) = 0)"

definition magneticMove :: "viewport \<Rightarrow> element \<Rightarrow> real \<Rightarrow> real \<Rightarrow> state \<Rightarrow> state" where
  "magneticMove v el clientX clientY s =
     (let rect = getBoundingClientRect v el;
          x = jsub (Num clientX) (jadd (Num (rect_left rect)) (jdiv (Num (rect_width rect)) (Num 2)));
          y = jsub (Num clientY) (jadd (Num (rect_top rect)) (jdiv (Num (rect_height rect)) (Num 2)))
      in setProperty el ''transform'' (CTranslate (jmul x (lit 0.3)) (jmul y (lit 0.3))) s)"

definition magneticLeave :: "element \<Rightarrow> state \<Rightarrow> state" where
  "magneticLeave el s = setProperty el ''transform'' (CTranslate (Num 0) (Num 0)) s"

subsection \<open>Mobile navigation\<close>

text \<open>\<open>initMobileNav\<close> returns before registering anything unless both elements exist.\<close>

definition nav_on :: "dom \<Rightarrow> bool" where
  "nav_on d \<longleftrightarrow> navToggle d \<noteq> None \<and> navMenu d \<noteq> None"

definition toggleMenu :: "dom \<Rightarrow> viewport \<Rightarrow> state \<Rightarrow> state" where
  "toggleMenu d v s =
     (let isExpanded = (aria_expanded s = Some ''true'');
          s1 = s\<lparr>aria_expanded := Some (if \<not> isExpanded then ''true'' else ''false'')\<rparr>;
          s2 = classList_toggle (html d) ''nav-open'' s1
      in if \<not> isExpanded
         then setTimeout FocusFirst 100
                (setProperty (body d) ''overflow'' (CStr ''hidden'')
                  (s2\<lparr>lastScrollPosition := Some (scrollY v)\<rparr>))
         else if_present (navToggle d) focus (setProperty (body d) ''overflow'' (CStr []) s2))"

definition linkClick :: "dom \<Rightarrow> viewport \<Rightarrow> state \<Rightarrow> state" where
  "linkClick d v s = (if aria_expanded s = Some ''true'' then toggleMenu d v s else s)"

text \<open>The keydown listener of the menu. \<open>document.activeElement\<close> is an element or \<open>null\<close>,
  so it is never identical to the \<open>undefined\<close> that an empty menu gives for its first and
  last focusable item.\<close>

definition menuKeydown :: "dom \<Rightarrow> viewport \<Rightarrow> string \<Rightarrow> bool \<Rightarrow> state \<Rightarrow> state" where
  "menuKeydown d v key shiftKey s =
     (if key = ''Tab''
      then if shiftKey
           then (if firstFocusable d \<noteq> None \<and> activeElement s = firstFocusable d
                 then if_present (lastFocusable d) focus s else s)
           else (if lastFocusable d \<noteq> None \<and> activeElement s = lastFocusable d
                 then if_present (firstFocusable d) focus s else s)
      else if key = ''Escape'' then toggleMenu d v s
      else s)"

subsection \<open>Start-up and events\<close>

text \<open>
  \<open>init\<close>, in the order of the source. \<open>initMobileNav\<close>, \<open>initMagnetics\<close> and
  \<open>initSmoothScroll\<close> only register listeners; whether they did is read off the page
  (\<open>nav_on\<close>, \<open>magnetics_on\<close>). The anchor-click listener of \<open>initSmoothScroll\<close> calls
  \<open>preventDefault\<close> and \<open>scrollIntoView\<close> and writes nothing the script keeps.
\<close>

definition init :: "dom \<Rightarrow> state \<Rightarrow> state" where
  "init d s = initFooterObserver d (initProductObserver d (initScrollReveal d (initIntro d s)))"

text \<open>Everything that can run after \<open>init\<close>: a frame, a pointer move, a delivery of entries
  to one of the three observers, a timer firing, and the listeners of the magnetic buttons,
  the nav toggle, the menu links, the menu's keys and the in-page anchors.\<close>

datatype event =
    Frame viewport
  | MouseMove viewport real real
  | RevealEntries "entry list"
  | ProductEntries "entry list"
  | FooterEntries "entry list"
  | Timeout nat
  | MagneticMove viewport element real real
  | MagneticLeave element
  | ToggleClick viewport
  | LinkClick viewport
  | MenuKeydown viewport string bool
  | AnchorClick

text \<open>A timer that fires is taken off the pending list; an index past the list fires
  nothing.\<close>

definition timeout :: "dom \<Rightarrow> nat \<Rightarrow> state \<Rightarrow> state" where
  "timeout d i s =
     (if i < length (timers s)
      then fire d (snd (timers s ! i)) (s\<lparr>timers := take i (timers s) @ drop (Suc i) (timers s)\<rparr>)
      else s)"

fun step :: "dom \<Rightarrow> event \<Rightarrow> state \<Rightarrow> state" where
  "step d (Frame v) s = renderLoop d v s"
| "step d (MouseMove v x y) s = onMouseMove d v x y s"
| "step d (RevealEntries es) s = revealCallback es s"
| "step d (ProductEntries es) s = productCallback d es s"
| "step d (FooterEntries es) s = footerCallback d es s"
| "step d (Timeout i) s = timeout d i s"
| "step d (MagneticMove v el x y) s =
     (if magnetics_on d s \<and> el \<in> set (magneticElements d) then magneticMove v el x y s else s)"
| "step d (MagneticLeave el) s =
     (if magnetics_on d s \<and> el \<in> set (magneticElements d) then magneticLeave el s else s)"
| "step d (ToggleClick v) s = (if nav_on d then toggleMenu d v s else s)"
| "step d (LinkClick v) s = (if nav_on d then linkClick d v s else s)"
| "step d (MenuKeydown v key shiftKey) s = (if nav_on d then menuKeydown d v key shiftKey s else s)"
| "step d AnchorClick s = s"

fun run :: "dom \<Rightarrow> event list \<Rightarrow> state \<Rightarrow> state" where
  "run d [] s = s"
| "run d (e # es) s = run d es (step d e s)"

text \<open>The menu is open when the toggle says expanded and the page carries \<open>nav-open\<close>,
  closed when neither holds.\<close>

definition menu_open :: "dom \<Rightarrow> state \<Rightarrow> bool" where
  "menu_open d s \<longleftrightarrow> aria_expanded s = Some ''true'' \<and> ''nav-open'' \<in> classList s (html d)"

definition menu_closed :: "dom \<Rightarrow> state \<Rightarrow> bool" where
  "menu_closed d s \<longleftrightarrow> aria_expanded s \<noteq> Some ''true'' \<and> ''nav-open'' \<notin> classList s (html d)"

text \<open>The sections that carry the active marker.\<close>

definition active_sections :: "dom \<Rightarrow> state \<Rightarrow> element set" where
  "active_sections d s = {x \<in> set (productSections d). ''is-active'' \<in> classList s x}"

text \<open>The render hints of the motion effects: parallax offsets, glow position and velocity,
  burr opacity and rotation, pressure level.\<close>

definition motion_hints :: "string list" where
  "motion_hints = [''--p-hero-y'', ''--p-media-y'', ''--cx'', ''--cy'', ''--cv'',
     ''--burr-opacity'', ''--burr-rotate'', ''--pressure-level'']"

subsection \<open>A sample page\<close>

text \<open>
  A page on which the theorems below are run: three product sections (elements 10, 11
  and 12, the first named \<open>stonewave\<close> and the second \<open>mariner-9\<close>), two reveal targets, a nav
  toggle and a menu with two focusable links, a cursor glow, one magnetic button and a
  footer. \<open>box\<close> is a bounding box given by its left and top edge and its size.
\<close>

definition demo_page :: dom where
  "demo_page =
     \<lparr>body = 0, html = 1, header = Some 2, heroStatement = Some 3, heroSubtext = Some 4,
      scrollIndicator = Some 5, productSections = [10, 11, 12], revealElements = [20, 21],
      navToggle = Some 6, navMenu = Some 7, cursorGlow = Some 8, magneticElements = [30],
      footer = Some 9,
      product = (\<lambda>el. if el = 10 then ''stonewave'' else if el = 11 then ''mariner-9''
                      else ''tidal-press''),
      focusableElements = [40, 41]\<rparr>"

definition box :: "real \<Rightarrow> real \<Rightarrow> real \<Rightarrow> real \<Rightarrow> DOMRect" where
  "box l t w h =
     \<lparr>rect_left = l, rect_top = t, rect_bottom = t + h, rect_width = w, rect_height = h\<rparr>"

text \<open>A viewport 800 pixels high over a body of scroll height \<open>sh\<close>, scrolled by \<open>y\<close>;
  section 10 is 512 wide and fills the viewport from top to bottom, section 11 is 1200 wide
  and lies from 200 to 600, and every other element is below the fold.\<close>

definition demo_view :: "real \<Rightarrow> real \<Rightarrow> viewport" where
  "demo_view y sh =
     \<lparr>scrollY = y, innerHeight = 800, scrollHeight = sh,
      getBoundingClientRect =
        (\<lambda>el. if el = 10 then box 0 0 512 800
              else if el = 11 then box 0 200 1200 400
              else box 0 900 1200 600)\<rparr>"

text \<open>The sample page just after \<open>init\<close>, for the given reduced-motion and touch flags: no
  class set in the markup, the toggle marked \<open>aria-expanded="false"\<close>, nothing focused.\<close>

definition demo_state :: "bool \<Rightarrow> bool \<Rightarrow> state" where
  "demo_state reduced touch =
     init demo_page (script_start reduced touch 0 (\<lambda>_. {}) (Some ''false'') None)"

text \<open>The sample page with the pressure scalar at \<open>1/2 - 2^-50\<close>, the double that prints
  as 0.4999999999999991.\<close>

definition stalled_state :: state where
  "stalled_state = (demo_state False False)\<lparr>pressure_current := Num (1 / 2 - 1 / 2 ^ 50)\<rparr>"

section \<open>Edge filter: proofs\<close>

lemma endsWith_iff: "endsWith s ext \<longleftrightarrow> (\<exists>ps. s = ps @ ext)"
proof
  assume "endsWith s ext"
  then have "s = take (length s - length ext) s @ ext"
    by (metis append_take_drop_id endsWith_def)
  then show "\<exists>ps. s = ps @ ext" ..
next
  assume "\<exists>ps. s = ps @ ext"
  then show "endsWith s ext"
    by (auto simp: endsWith_def)
qed

lemma str_includes_iff: "str_includes s sub \<longleftrightarrow> (\<exists>ps ss. s = ps @ sub @ ss)"
proof (induction s)
  case Nil
  then show ?case by auto
next
  case (Cons c cs)
  have "take (length sub) (c # cs) = sub \<longleftrightarrow> (\<exists>ss. c # cs = sub @ ss)"
    by (metis append_eq_conv_conj append_take_drop_id)
  moreover have "(\<exists>ps ss. c # cs = ps @ sub @ ss) \<longleftrightarrow>
      (\<exists>ss. c # cs = sub @ ss) \<or> (\<exists>ps ss. cs = ps @ sub @ ss)"
  proof
    assume "\<exists>ps ss. c # cs = ps @ sub @ ss"
    then obtain ps ss where eq: "c # cs = ps @ sub @ ss" by blast
    show "(\<exists>ss. c # cs = sub @ ss) \<or> (\<exists>ps ss. cs = ps @ sub @ ss)"
    proof (cases ps)
      case Nil
      with eq show ?thesis by auto
    next
      case (Cons p ps')
      with eq have "cs = ps' @ sub @ ss" by simp
      then show ?thesis by blast
    qed
  next
    assume "(\<exists>ss. c # cs = sub @ ss) \<or> (\<exists>ps ss. cs = ps @ sub @ ss)"
    then show "\<exists>ps ss. c # cs = ps @ sub @ ss"
    proof
      assume "\<exists>ss. c # cs = sub @ ss"
      then obtain ss where "c # cs = [] @ sub @ ss" by auto
      then show ?thesis by blast
    next
      assume "\<exists>ps ss. cs = ps @ sub @ ss"
      then obtain ps ss where "c # cs = (c # ps) @ sub @ ss" by auto
      then show ?thesis by blast
    qed
  qed
  ultimately show ?case using Cons.IH by simp
qed

lemma toLowerCase_simps [simp]:
  "toLowerCase [] = []"
  "toLowerCase (c # cs) = lower_char c # toLowerCase cs"
  by (simp_all add: toLowerCase_def)

lemma edge_filter_cases:
  "edge_filter r = Response ''Access Denied'' 403 \<or> edge_filter r = Next"
  by (simp add: edge_filter_def Let_def)

text \<open>
  C1. The filter answers 403 "Access Denied" exactly when the lowercased path ends with one
  of the six blocked suffixes or the lowercased user-agent (the empty string when the header
  is absent) contains one of the seven blocked substrings; in every other case it calls the
  next handler. The six example requests of the spec come out as stated.
\<close>

theorem edge_filter_spec:
  "(edge_filter r = Response ''Access Denied'' 403 \<longleftrightarrow>
      (\<exists>ext \<in> {''.php'', ''.env'', ''.git'', ''.sql'', ''.bak'', ''.config''}.
          \<exists>ps. toLowerCase (pathname r) = ps @ ext) \<or>
      (\<exists>bot \<in> {''semrushbot'', ''ahrefsbot'', ''dotbot'', ''mj12bot'', ''petalbot'',
                 ''bytespider'', ''liebaofast''}.
          \<exists>ps ss. toLowerCase (case user_agent r of None \<Rightarrow> [] | Some v \<Rightarrow> v) = ps @ bot @ ss))
   \<and> (edge_filter r \<noteq> Response ''Access Denied'' 403 \<longrightarrow> edge_filter r = Next)
   \<and> edge_filter (req ''/config.env'' (Some browser_ua)) = Response ''Access Denied'' 403
   \<and> edge_filter (req ''/.env'' None) = Response ''Access Denied'' 403
   \<and> edge_filter (req ''/data.sql'' (Some browser_ua)) = Response ''Access Denied'' 403
   \<and> edge_filter (req ''/report.SQL'' (Some browser_ua)) = Response ''Access Denied'' 403
   \<and> edge_filter (req ''/about'' (Some ahrefs_ua)) = Response ''Access Denied'' 403
   \<and> edge_filter (req ''/about'' (Some browser_ua)) = Next"
proof -
  have iff: "edge_filter r = Response ''Access Denied'' 403 \<longleftrightarrow>
      (\<exists>ext \<in> {''.php'', ''.env'', ''.git'', ''.sql'', ''.bak'', ''.config''}.
          \<exists>ps. toLowerCase (pathname r) = ps @ ext) \<or>
      (\<exists>bot \<in> {''semrushbot'', ''ahrefsbot'', ''dotbot'', ''mj12bot'', ''petalbot'',
                 ''bytespider'', ''liebaofast''}.
          \<exists>ps ss. toLowerCase (case user_agent r of None \<Rightarrow> [] | Some v \<Rightarrow> v) = ps @ bot @ ss)"
    unfolding edge_filter_def Let_def blockedExtensions_def blockedBots_def header_or_empty_def
      list_ex_iff endsWith_iff str_includes_iff
    by simp
  have other: "edge_filter r \<noteq> Response ''Access Denied'' 403 \<longrightarrow> edge_filter r = Next"
    using edge_filter_cases [of r] by blast
  have e1: "edge_filter (req ''/config.env'' (Some browser_ua)) = Response ''Access Denied'' 403"
    by (simp add: edge_filter_def req_def blockedExtensions_def endsWith_def lower_char_def
        upper_letters_def lower_letters_def)
  have e2: "edge_filter (req ''/.env'' None) = Response ''Access Denied'' 403"
    by (simp add: edge_filter_def req_def blockedExtensions_def endsWith_def lower_char_def
        upper_letters_def lower_letters_def)
  have e3: "edge_filter (req ''/data.sql'' (Some browser_ua)) = Response ''Access Denied'' 403"
    by (simp add: edge_filter_def req_def blockedExtensions_def endsWith_def lower_char_def
        upper_letters_def lower_letters_def)
  have e4: "edge_filter (req ''/report.SQL'' (Some browser_ua)) = Response ''Access Denied'' 403"
    by (simp add: edge_filter_def req_def blockedExtensions_def endsWith_def lower_char_def
        upper_letters_def lower_letters_def)
  have e5: "edge_filter (req ''/about'' (Some ahrefs_ua)) = Response ''Access Denied'' 403"
    by (simp add: edge_filter_def req_def blockedExtensions_def blockedBots_def endsWith_def
        header_or_empty_def ahrefs_ua_def lower_char_def upper_letters_def lower_letters_def)
  have e6: "edge_filter (req ''/about'' (Some browser_ua)) = Next"
    by (simp add: edge_filter_def req_def blockedExtensions_def blockedBots_def endsWith_def
        header_or_empty_def browser_ua_def lower_char_def upper_letters_def lower_letters_def)
  from iff other e1 e2 e3 e4 e5 e6 show ?thesis by blast
qed

theorem edge_filter_spec_witness:
  "edge_filter (req ''/wp-login.PHP'' None) = Response ''Access Denied'' 403 \<and>
   edge_filter (req ''/index.html'' (Some ''curl/8.5.0'')) = Next"
proof -
  have "toLowerCase (pathname (req ''/wp-login.PHP'' None)) = ''/wp-login'' @ ''.php''"
    by (simp add: req_def lower_char_def upper_letters_def lower_letters_def)
  then have "\<exists>ext \<in> {''.php'', ''.env'', ''.git'', ''.sql'', ''.bak'', ''.config''}.
      \<exists>ps. toLowerCase (pathname (req ''/wp-login.PHP'' None)) = ps @ ext"
    by blast
  with edge_filter_spec [of "req ''/wp-login.PHP'' None"]
  have denied: "edge_filter (req ''/wp-login.PHP'' None) = Response ''Access Denied'' 403"
    by blast
  have "edge_filter (req ''/index.html'' (Some ''curl/8.5.0'')) \<noteq> Response ''Access Denied'' 403"
    by (simp add: edge_filter_def req_def blockedExtensions_def blockedBots_def endsWith_def
        header_or_empty_def lower_char_def upper_letters_def lower_letters_def)
  with edge_filter_spec [of "req ''/index.html'' (Some ''curl/8.5.0'')"]
  have "edge_filter (req ''/index.html'' (Some ''curl/8.5.0'')) = Next"
    by blast
  with denied show ?thesis by simp
qed

section \<open>JavaScript numbers: basic facts\<close>

subsection \<open>Rounding to the nearest integer\<close>

lemma round_even_of_int [simp]: "round_even (of_int n) = n"
  by (simp add: round_even_def)

lemma round_even_cases:
  "round_even y = \<lfloor>y\<rfloor> \<or> round_even y = \<lfloor>y\<rfloor> + 1"
  by (simp add: round_even_def Let_def)

lemma round_even_ge: "of_int n \<le> y \<Longrightarrow> n \<le> round_even y"
proof -
  assume "of_int n \<le> y"
  then have "n \<le> \<lfloor>y\<rfloor>" by (simp add: le_floor_iff)
  with round_even_cases [of y] show ?thesis by linarith
qed

lemma round_even_le: "y \<le> of_int n \<Longrightarrow> round_even y \<le> n"
proof (cases "y = of_int n")
  case True
  then show ?thesis by simp
next
  case False
  assume "y \<le> of_int n"
  with False have lt: "y < of_int n" by simp
  then have "\<lfloor>y\<rfloor> < n" by (simp add: floor_less_iff)
  with round_even_cases [of y] show ?thesis by linarith
qed

lemma round_even_err: "\<bar>of_int (round_even y) - y\<bar> \<le> 1 / 2"
proof -
  have "of_int \<lfloor>y\<rfloor> \<le> y" "y < of_int \<lfloor>y\<rfloor> + 1" by linarith+
  then show ?thesis
    by (auto simp: round_even_def Let_def)
qed

lemma round_even_eval:
  assumes "of_int n - 1 / 2 < y" and "y < of_int n + 1 / 2"
  shows "round_even y = n"
proof -
  have e: "\<bar>of_int (round_even y) - y\<bar> \<le> 1 / 2" by (rule round_even_err)
  have "\<bar>of_int (round_even y) - (of_int n :: real)\<bar> < 1"
    using assms e by linarith
  then have "\<bar>round_even y - n\<bar> < 1"
    by (metis of_int_1 of_int_abs of_int_diff of_int_less_iff)
  then show ?thesis by simp
qed

lemma round_even_minus: "round_even (- y) = - round_even y"
proof (cases "y = of_int \<lfloor>y\<rfloor>")
  case True
  then have "- y = of_int (- \<lfloor>y\<rfloor>)" by simp
  then have "round_even (- y) = - \<lfloor>y\<rfloor>"
    by (metis round_even_of_int)
  moreover have "round_even y = \<lfloor>y\<rfloor>"
    by (metis True round_even_of_int)
  ultimately show ?thesis by simp
next
  case False
  then have fl: "\<lfloor>- y\<rfloor> = - \<lfloor>y\<rfloor> - 1"
    by (metis ceiling_def ceiling_altdef minus_diff_eq diff_minus_eq_add add.commute minus_minus uminus_add_conv_diff)
  define f where "f = \<lfloor>y\<rfloor>"
  define r where "r = y - of_int f"
  have r: "0 < r" "r < 1"
    using False unfolding r_def f_def by linarith+
  have r': "- y - of_int (- f - 1) = 1 - r"
    unfolding r_def by simp
  have par: "even (- f - 1) \<longleftrightarrow> odd f" by simp
  show ?thesis
    unfolding round_even_def Let_def fl f_def [symmetric] r' r_def [symmetric] par
    using r by auto
qed


subsection \<open>Exponent and spacing\<close>

lemma two_powi_powr: "(2::real) powi n = 2 powr (of_int n)"
  by (simp add: powr_real_of_int')

lemma two_powi_mono: "m \<le> n \<Longrightarrow> (2::real) powi m \<le> 2 powi n"
  by (rule power_int_increasing) simp_all

lemma two_powi_strict_mono: "m < n \<Longrightarrow> (2::real) powi m < 2 powi n"
  by (rule power_int_strict_increasing) simp_all

lemma two_powi_less_cancel: "(2::real) powi m < 2 powi n \<Longrightarrow> m < n"
  by (metis linorder_not_less two_powi_mono)

lemma floor_log2_lower: "0 < x \<Longrightarrow> 2 powi \<lfloor>log 2 x\<rfloor> \<le> x"
  unfolding two_powi_powr by (simp add: le_log_iff [symmetric])

lemma floor_log2_upper: "0 < x \<Longrightarrow> x < 2 powi (\<lfloor>log 2 x\<rfloor> + 1)"
proof -
  assume x: "0 < x"
  have h: "log 2 x < of_int (\<lfloor>log 2 x\<rfloor> + 1)" by linarith
  have one: "(1::real) < 2" by simp
  from log_less_iff [OF one x, of "of_int (\<lfloor>log 2 x\<rfloor> + 1)"] h
  have "x < 2 powr of_int (\<lfloor>log 2 x\<rfloor> + 1)" by blast
  then show ?thesis unfolding two_powi_powr .
qed

lemma floor_log2_eq:
  assumes "0 < x" and "2 powi e \<le> x" and "x < 2 powi (e + 1)"
  shows "\<lfloor>log 2 x\<rfloor> = e"
proof (rule floor_unique)
  show "of_int e \<le> log 2 x"
    using assms(1,2) unfolding two_powi_powr by (simp add: le_log_iff)
  show "log 2 x < of_int e + 1"
    using assms(1,3) unfolding two_powi_powr by (simp add: log_less_iff)
qed

lemma expo_ge: "- 1022 \<le> expo x"
  by (simp add: expo_def)

lemma expo_minus [simp]: "expo (- x) = expo x"
  by (simp add: expo_def)

lemma expo_abs [simp]: "expo \<bar>x\<bar> = expo x"
  by (simp add: expo_def)

lemma ulp_pos [simp]: "0 < ulp x"
  by (simp add: ulp_def)

lemma ulp_minus [simp]: "ulp (- x) = ulp x"
  by (simp add: ulp_def)

lemma ulp_nonneg [simp]: "0 \<le> ulp x"
  by (simp add: ulp_def)

lemma ulp_neq_0 [simp]: "ulp x \<noteq> 0"
  by (simp add: ulp_def)

lemma round_even_0 [simp]: "round_even 0 = 0"
  using round_even_of_int [of 0] by simp

lemma expo_upper: "\<bar>x\<bar> < 2 powi (expo x + 1)"
proof (cases "x = 0")
  case True
  then show ?thesis by simp
next
  case False
  then have "\<bar>x\<bar> < 2 powi (\<lfloor>log 2 \<bar>x\<bar>\<rfloor> + 1)"
    by (simp add: floor_log2_upper)
  also have "\<dots> \<le> 2 powi (expo x + 1)"
    using False by (intro two_powi_mono) (simp add: expo_def)
  finally show ?thesis .
qed

lemma expo_lower: "2 powi (- 1022) \<le> \<bar>x\<bar> \<Longrightarrow> 2 powi (expo x) \<le> \<bar>x\<bar>"
proof -
  assume a: "2 powi (- 1022) \<le> \<bar>x\<bar>"
  then have pos: "0 < \<bar>x\<bar>"
    by (smt (verit) zero_less_power_int)
  then have nz: "x \<noteq> 0" by simp
  have "\<not> \<lfloor>log 2 \<bar>x\<bar>\<rfloor> < - 1022"
  proof
    assume "\<lfloor>log 2 \<bar>x\<bar>\<rfloor> < - 1022"
    then have "\<lfloor>log 2 \<bar>x\<bar>\<rfloor> + 1 \<le> - 1022" by linarith
    then have "2 powi (\<lfloor>log 2 \<bar>x\<bar>\<rfloor> + 1) \<le> (2::real) powi (- 1022)"
      by (rule two_powi_mono)
    with floor_log2_upper [OF pos] a show False by linarith
  qed
  then have "max \<lfloor>log 2 \<bar>x\<bar>\<rfloor> (- 1022) = \<lfloor>log 2 \<bar>x\<bar>\<rfloor>"
    by (intro max_absorb1) linarith
  then have "expo x = \<lfloor>log 2 \<bar>x\<bar>\<rfloor>"
    using nz by (simp only: expo_def if_False)
  with floor_log2_lower [OF pos] show ?thesis by simp
qed

lemma expo_eq:
  assumes "2 powi e \<le> \<bar>x\<bar>" and "\<bar>x\<bar> < 2 powi (e + 1)" and "- 1022 \<le> e"
  shows "expo x = e"
proof -
  have pos: "0 < \<bar>x\<bar>"
    using assms(1) by (smt (verit) zero_less_power_int)
  then have "x \<noteq> 0" by simp
  moreover have "\<lfloor>log 2 \<bar>x\<bar>\<rfloor> = e"
    using pos assms(1,2) by (rule floor_log2_eq)
  moreover have "max e (- 1022) = e"
    using assms(3) by (rule max_absorb1)
  ultimately show ?thesis by (simp only: expo_def if_False)
qed

lemma expo_subnormal: "\<bar>x\<bar> < 2 powi (- 1022) \<Longrightarrow> expo x = - 1022"
proof (cases "x = 0")
  case True
  then show ?thesis by (simp add: expo_def)
next
  case False
  assume a: "\<bar>x\<bar> < 2 powi (- 1022)"
  from False have pos: "0 < \<bar>x\<bar>" by simp
  have "2 powi \<lfloor>log 2 \<bar>x\<bar>\<rfloor> < (2::real) powi (- 1022)"
    using floor_log2_lower [OF pos] a by linarith
  then have "\<lfloor>log 2 \<bar>x\<bar>\<rfloor> < - 1022"
    by (rule two_powi_less_cancel)
  then have "max \<lfloor>log 2 \<bar>x\<bar>\<rfloor> (- 1022) = - 1022"
    by (intro max_absorb2 less_imp_le)
  with False show ?thesis by (simp only: expo_def if_False)
qed

lemma expo_le:
  assumes "\<bar>x\<bar> < 2 powi k" and "- 1021 \<le> k"
  shows "expo x \<le> k - 1"
proof (cases "x = 0")
  case True
  with assms(2) show ?thesis by (simp add: expo_def)
next
  case False
  then have pos: "0 < \<bar>x\<bar>" by simp
  have "2 powi \<lfloor>log 2 \<bar>x\<bar>\<rfloor> < (2::real) powi k"
    using floor_log2_lower [OF pos] assms(1) by linarith
  then have "\<lfloor>log 2 \<bar>x\<bar>\<rfloor> < k"
    by (rule two_powi_less_cancel)
  with assms(2) have "max \<lfloor>log 2 \<bar>x\<bar>\<rfloor> (- 1022) \<le> k - 1"
    by (intro max.boundedI) linarith+
  with False show ?thesis by (simp only: expo_def if_False)
qed

lemma expo_mono:
  assumes "\<bar>x\<bar> \<le> \<bar>y\<bar>"
  shows "expo x \<le> expo y"
proof -
  have "\<bar>x\<bar> < 2 powi (expo y + 1)"
    using assms expo_upper [of y] by linarith
  moreover have "- 1021 \<le> expo y + 1"
    using expo_ge [of y] by simp
  ultimately have "expo x \<le> expo y + 1 - 1"
    by (rule expo_le)
  then show ?thesis by simp
qed

lemma ulp_mono: "\<bar>x\<bar> \<le> \<bar>y\<bar> \<Longrightarrow> ulp x \<le> ulp y"
  unfolding ulp_def by (intro two_powi_mono) (simp add: expo_mono)

lemma ulp_le:
  assumes "\<bar>x\<bar> < 2 powi k" and "- 1021 \<le> k"
  shows "ulp x \<le> 2 powi (k - 53)"
  unfolding ulp_def using expo_le [OF assms] by (intro two_powi_mono) simp


subsection \<open>Rounding to the grid of doubles\<close>

lemma rnd_0 [simp]: "rnd 0 = 0"
  by (simp add: rnd_def)

lemma rnd_minus: "rnd (- x) = - rnd x"
  by (simp add: rnd_def round_even_minus)

lemma rnd_err: "\<bar>rnd x - x\<bar> \<le> ulp x / 2"
proof -
  have "rnd x - x = (of_int (round_even (x / ulp x)) - x / ulp x) * ulp x"
    by (simp add: rnd_def algebra_simps)
  then have "\<bar>rnd x - x\<bar> = \<bar>of_int (round_even (x / ulp x)) - x / ulp x\<bar> * ulp x"
    by (simp add: abs_mult)
  also have "\<dots> \<le> 1 / 2 * ulp x"
    by (intro mult_right_mono round_even_err) simp
  finally show ?thesis by simp
qed

lemma rnd_nonneg: "0 \<le> x \<Longrightarrow> 0 \<le> rnd x"
proof -
  assume "0 \<le> x"
  then have "of_int 0 \<le> x / ulp x" by simp
  then have "0 \<le> round_even (x / ulp x)" by (rule round_even_ge)
  then show ?thesis by (simp add: rnd_def)
qed

lemma rnd_fixI: "r = of_int n * ulp r \<Longrightarrow> rnd r = r"
proof -
  assume r: "r = of_int n * ulp r"
  then have "r / ulp r = of_int n"
    by (metis nonzero_mult_div_cancel_right less_numeral_extra(3) ulp_pos)
  then have "round_even (r / ulp r) = n" by simp
  with r show ?thesis by (simp add: rnd_def)
qed

lemma rnd_fixD: "rnd r = r \<Longrightarrow> \<exists>n. r = of_int n * ulp r"
  unfolding rnd_def by metis

lemma two_powi_split: "(2::real) powi (e + 1) = 2 ^ 53 * 2 powi (e - 52)"
proof -
  have "(2::real) powi (e + 1) = 2 powi (53 + (e - 52))"
    by (rule arg_cong [where f = "power_int 2"]) linarith
  also have "\<dots> = 2 powi 53 * 2 powi (e - 52)"
    by (rule power_int_add) simp
  finally show ?thesis by simp
qed

lemma two_powi_split': "(2::real) powi e = 2 ^ 52 * 2 powi (e - 52)"
proof -
  have "(2::real) powi e = 2 powi (52 + (e - 52))"
    by (rule arg_cong [where f = "power_int 2"]) linarith
  also have "\<dots> = 2 powi 52 * 2 powi (e - 52)"
    by (rule power_int_add) simp
  finally show ?thesis by simp
qed

lemma scaled_upper: "\<bar>x\<bar> / ulp x < 2 ^ 53"
proof -
  have "2 ^ 53 * ulp x = 2 powi (expo x + 1)"
    unfolding ulp_def by (rule two_powi_split [symmetric])
  with expo_upper [of x] have "\<bar>x\<bar> < 2 ^ 53 * ulp x"
    by (simp only:)
  then show ?thesis by (simp add: divide_less_eq)
qed

lemma scaled_lower: "2 powi (- 1022) \<le> \<bar>x\<bar> \<Longrightarrow> 2 ^ 52 \<le> \<bar>x\<bar> / ulp x"
proof -
  assume "2 powi (- 1022) \<le> \<bar>x\<bar>"
  then have "2 powi (expo x) \<le> \<bar>x\<bar>" by (rule expo_lower)
  moreover have "2 ^ 52 * ulp x = 2 powi (expo x)"
    unfolding ulp_def by (rule two_powi_split' [symmetric])
  ultimately have "2 ^ 52 * ulp x \<le> \<bar>x\<bar>"
    by (simp only:)
  then show ?thesis by (simp add: le_divide_eq)
qed

lemma normal_of_expo: "- 1022 < expo x \<Longrightarrow> 2 powi (- 1022) \<le> \<bar>x\<bar>"
  using expo_subnormal [of x] by fastforce

lemma rnd_ge_pos:
  assumes "0 < r" and "rnd r = r" and "r \<le> x"
  shows "r \<le> rnd x"
proof -
  from assms have x: "0 < x" by simp
  have le: "expo r \<le> expo x"
    using assms(1,3) by (intro expo_mono) simp
  show ?thesis
  proof (cases "expo r = expo x")
    case True
    then have u: "ulp r = ulp x" by (simp add: ulp_def)
    from rnd_fixD [OF assms(2)] obtain n where n: "r = of_int n * ulp x"
      unfolding u by blast
    then have "of_int n * ulp x \<le> x" using assms(3) by simp
    then have "of_int n \<le> x / ulp x" by (simp add: le_divide_eq)
    then have "n \<le> round_even (x / ulp x)" by (rule round_even_ge)
    then have "of_int n * ulp x \<le> of_int (round_even (x / ulp x)) * ulp x"
      by (intro mult_right_mono) simp_all
    with n show ?thesis by (simp add: rnd_def)
  next
    case False
    with le have lt: "expo r < expo x" by simp
    then have "- 1022 < expo x" using expo_ge [of r] by simp
    then have "2 powi (- 1022) \<le> \<bar>x\<bar>" by (rule normal_of_expo)
    then have "2 ^ 52 \<le> \<bar>x\<bar> / ulp x" by (rule scaled_lower)
    then have "of_int (2 ^ 52) \<le> x / ulp x" using x by simp
    then have "2 ^ 52 \<le> round_even (x / ulp x)" by (rule round_even_ge)
    then have "(2 ^ 52 :: real) \<le> of_int (round_even (x / ulp x))"
      by (metis of_int_le_iff of_int_numeral of_int_power)
    then have "2 ^ 52 * ulp x \<le> of_int (round_even (x / ulp x)) * ulp x"
      by (intro mult_right_mono) simp_all
    moreover have "2 ^ 52 * ulp x = 2 powi (expo x)"
      unfolding ulp_def by (rule two_powi_split' [symmetric])
    ultimately have big: "2 powi (expo x) \<le> rnd x"
      by (simp only: rnd_def)
    have "r < 2 powi (expo r + 1)"
      using expo_upper [of r] assms(1) by simp
    also have "\<dots> \<le> 2 powi (expo x)"
      using lt by (intro two_powi_mono) simp
    finally show ?thesis using big by simp
  qed
qed

lemma rnd_le_pos:
  assumes "0 < x" and "rnd r = r" and "x \<le> r"
  shows "rnd x \<le> r"
proof -
  from assms have r: "0 < r" by simp
  have le: "expo x \<le> expo r"
    using assms(1,3) by (intro expo_mono) simp
  show ?thesis
  proof (cases "expo x = expo r")
    case True
    then have u: "ulp r = ulp x" by (simp add: ulp_def)
    from rnd_fixD [OF assms(2)] obtain n where n: "r = of_int n * ulp x"
      unfolding u by blast
    then have "x \<le> of_int n * ulp x" using assms(3) by simp
    then have "x / ulp x \<le> of_int n" by (simp add: divide_le_eq)
    then have "round_even (x / ulp x) \<le> n" by (rule round_even_le)
    then have "of_int (round_even (x / ulp x)) * ulp x \<le> of_int n * ulp x"
      by (intro mult_right_mono) simp_all
    with n show ?thesis by (simp add: rnd_def)
  next
    case False
    with le have lt: "expo x < expo r" by simp
    then have "- 1022 < expo r" using expo_ge [of x] by simp
    then have "2 powi (- 1022) \<le> \<bar>r\<bar>" by (rule normal_of_expo)
    then have rbig: "2 powi (expo r) \<le> r" using expo_lower [of r] r by simp
    have "x / ulp x \<le> of_int (2 ^ 53)"
      using scaled_upper [of x] assms(1) by simp
    then have "round_even (x / ulp x) \<le> 2 ^ 53" by (rule round_even_le)
    then have "of_int (round_even (x / ulp x)) \<le> (2 ^ 53 :: real)"
      by (metis of_int_le_iff of_int_numeral of_int_power)
    then have "of_int (round_even (x / ulp x)) * ulp x \<le> 2 ^ 53 * ulp x"
      by (intro mult_right_mono) simp_all
    moreover have "2 ^ 53 * ulp x = 2 powi (expo x + 1)"
      unfolding ulp_def by (rule two_powi_split [symmetric])
    ultimately have "rnd x \<le> 2 powi (expo x + 1)"
      by (simp only: rnd_def)
    also have "\<dots> \<le> 2 powi (expo r)"
      using lt by (intro two_powi_mono) simp
    finally show ?thesis using rbig by simp
  qed
qed

lemma rnd_fix_minus: "rnd r = r \<Longrightarrow> rnd (- r) = - r"
  by (simp add: rnd_minus)

lemma rnd_ge:
  assumes "rnd r = r" and "r \<le> x"
  shows "r \<le> rnd x"
proof -
  consider "0 < r" | "r \<le> 0" "0 \<le> x" | "x < 0" by linarith
  then show ?thesis
  proof cases
    case 1
    then show ?thesis using assms by (rule rnd_ge_pos)
  next
    case 2
    then show ?thesis using rnd_nonneg [of x] by simp
  next
    case 3
    then have "0 < - x" "- x \<le> - r" using assms(2) by simp_all
    then have "rnd (- x) \<le> - r"
      using rnd_fix_minus [OF assms(1)] by (intro rnd_le_pos)
    then show ?thesis by (simp add: rnd_minus)
  qed
qed

lemma rnd_le:
  assumes "rnd r = r" and "x \<le> r"
  shows "rnd x \<le> r"
proof -
  have "- r \<le> rnd (- x)"
    using rnd_fix_minus [OF assms(1)] assms(2) by (intro rnd_ge) simp_all
  then show ?thesis by (simp add: rnd_minus)
qed

lemma rnd_exact:
  assumes "x = of_int m * 2 powi k" and "\<bar>m\<bar> < 2 ^ 53" and "- 1074 \<le> k"
  shows "rnd x = x"
proof -
  have "\<bar>x\<bar> = \<bar>of_int m\<bar> * 2 powi k"
    by (simp add: assms(1) abs_mult)
  also have "\<dots> < 2 ^ 53 * 2 powi k"
  proof (intro mult_strict_right_mono)
    have "\<bar>real_of_int m\<bar> = of_int \<bar>m\<bar>" by simp
    also have "\<dots> < of_int (2 ^ 53)" using assms(2) by (simp only: of_int_less_iff)
    finally show "\<bar>real_of_int m\<bar> < 2 ^ 53" by simp
  qed simp
  also have "\<dots> = 2 powi (k + 53)"
    using power_int_add [of "2::real" 53 k] by (simp add: add.commute)
  finally have "\<bar>x\<bar> < 2 powi (k + 53)" .
  then have "expo x \<le> k + 53 - 1"
    using assms(3) by (intro expo_le) simp_all
  then have j: "0 \<le> k - (expo x - 52)" by simp
  define j where "j = nat (k - (expo x - 52))"
  have "(2::real) powi k = 2 powi (int j + (expo x - 52))"
    using j by (simp add: j_def)
  also have "\<dots> = 2 powi (int j) * 2 powi (expo x - 52)"
    by (rule power_int_add) simp
  finally have "(2::real) powi k = 2 ^ j * ulp x"
    by (simp add: ulp_def)
  then have "x = of_int (m * 2 ^ j) * ulp x"
    by (simp add: assms(1))
  then show ?thesis by (rule rnd_fixI)
qed

lemma rnd_two_powi: "- 1074 \<le> k \<Longrightarrow> rnd (2 powi k) = 2 powi k"
  by (rule rnd_exact [where m = 1]) simp_all

lemma grid_multiple:
  assumes "rnd r = r"
  shows "\<exists>n. r = of_int n * 2 powi (- 1074)"
proof -
  from rnd_fixD [OF assms] obtain n where n: "r = of_int n * ulp r" by blast
  define j where "j = nat (expo r + 1022)"
  have "0 \<le> expo r + 1022" using expo_ge [of r] by simp
  then have "expo r - 52 = int j + (- 1074)" by (simp add: j_def)
  then have "ulp r = 2 powi (int j + (- 1074))" by (simp only: ulp_def)
  also have "\<dots> = 2 powi (int j) * 2 powi (- 1074)"
    by (rule power_int_add) simp
  finally have "ulp r = 2 ^ j * 2 powi (- 1074)" by simp
  with n have "r = of_int (n * 2 ^ j) * 2 powi (- 1074)" by simp
  then show ?thesis ..
qed


lemma round_even_scaled: "\<bar>round_even (x / ulp x)\<bar> \<le> 2 ^ 53"
proof -
  have "x / ulp x \<le> \<bar>x\<bar> / ulp x"
    by (intro divide_right_mono) simp_all
  moreover have "(- \<bar>x\<bar>) / ulp x \<le> x / ulp x"
    by (intro divide_right_mono) simp_all
  ultimately have "x / ulp x < 2 ^ 53" "- (2 ^ 53) < x / ulp x"
    using scaled_upper [of x] by simp_all
  then have hi: "x / ulp x \<le> of_int (2 ^ 53)" and lo: "of_int (- (2 ^ 53)) \<le> x / ulp x"
    by simp_all
  from hi have "round_even (x / ulp x) \<le> 2 ^ 53" by (rule round_even_le)
  moreover from lo have "- (2 ^ 53) \<le> round_even (x / ulp x)" by (rule round_even_ge)
  ultimately show ?thesis by linarith
qed

lemma rnd_idem: "rnd (rnd x) = rnd x"
proof (cases "\<bar>round_even (x / ulp x)\<bar> < 2 ^ 53")
  case True
  have "rnd x = of_int (round_even (x / ulp x)) * 2 powi (expo x - 52)"
    by (simp add: rnd_def ulp_def)
  then show ?thesis
    using True by (rule rnd_exact) (use expo_ge [of x] in linarith)
next
  case False
  with round_even_scaled [of x] have "\<bar>round_even (x / ulp x)\<bar> = 2 ^ 53" by linarith
  then consider "round_even (x / ulp x) = 2 ^ 53" | "round_even (x / ulp x) = - (2 ^ 53)"
    by linarith
  then have "\<exists>m. \<bar>m\<bar> < 2 ^ 53 \<and> rnd x = of_int m * 2 powi (expo x + 1)"
  proof cases
    case 1
    then have "rnd x = 2 ^ 53 * ulp x" by (simp add: rnd_def)
    also have "\<dots> = of_int 1 * 2 powi (expo x + 1)"
      unfolding ulp_def by (simp only: two_powi_split [symmetric] of_int_1 mult_1)
    finally show ?thesis by (intro exI [of _ 1]) simp
  next
    case 2
    then have "rnd x = - (2 ^ 53 * ulp x)" by (simp add: rnd_def)
    also have "\<dots> = of_int (- 1) * 2 powi (expo x + 1)"
      unfolding ulp_def by (simp only: two_powi_split [symmetric])
    finally show ?thesis by (intro exI [of _ "- 1"]) simp
  qed
  then obtain m where m: "\<bar>m\<bar> < 2 ^ 53" "rnd x = of_int m * 2 powi (expo x + 1)" by blast
  from m(2) m(1) show ?thesis
    by (rule rnd_exact) (use expo_ge [of x] in linarith)
qed

subsection \<open>Rounding to a double\<close>

lemma fl_Num_iff: "fl x = Num v \<longleftrightarrow> v = rnd x \<and> \<bar>rnd x\<bar> < 2 ^ 1024"
  by (auto simp: fl_def Let_def)

lemma fl_finite: "\<bar>rnd x\<bar> < 2 ^ 1024 \<Longrightarrow> fl x = Num (rnd x)"
  by (simp add: fl_Num_iff)

lemma is_double_iff: "is_double x \<longleftrightarrow> rnd x = x \<and> \<bar>x\<bar> < 2 ^ 1024"
  unfolding is_double_def fl_Num_iff by auto

lemma fl_0 [simp]: "fl 0 = Num 0"
  by (simp add: fl_Num_iff)

lemma fl_not_NaN [simp]: "fl x \<noteq> NaN"
  by (simp add: fl_def Let_def)

lemma fl_idem: "fl x = Num v \<Longrightarrow> is_double v"
  unfolding is_double_iff fl_Num_iff by (auto simp: rnd_idem)

lemma is_double_minus: "is_double x \<Longrightarrow> is_double (- x)"
  by (simp add: is_double_iff rnd_minus)

lemma abs_scaled_less:
  assumes "\<bar>m\<bar> < 2 ^ 53" and "k \<le> 971"
  shows "\<bar>real_of_int m * 2 powi k\<bar> < 2 ^ 1024"
proof -
  have "\<bar>real_of_int m * 2 powi k\<bar> = \<bar>of_int m\<bar> * 2 powi k"
    by (simp add: abs_mult)
  also have "\<dots> < 2 ^ 53 * 2 powi k"
  proof (intro mult_strict_right_mono)
    have "\<bar>real_of_int m\<bar> = of_int \<bar>m\<bar>" by simp
    also have "\<dots> < of_int (2 ^ 53)" using assms(1) by (simp only: of_int_less_iff)
    finally show "\<bar>real_of_int m\<bar> < 2 ^ 53" by simp
  qed simp
  also have "\<dots> \<le> 2 ^ 53 * 2 powi 971"
    using assms(2) by (intro mult_left_mono two_powi_mono) simp_all
  also have "\<dots> = 2 ^ 1024" by simp
  finally show ?thesis .
qed

lemma fl_exact:
  assumes "x = of_int m * 2 powi k" and "\<bar>m\<bar> < 2 ^ 53" and "- 1074 \<le> k" and "k \<le> 971"
  shows "fl x = Num x"
proof -
  have r: "rnd x = x" using assms(1-3) by (rule rnd_exact)
  have "\<bar>x\<bar> < 2 ^ 1024"
    unfolding assms(1) using assms(2,4) by (rule abs_scaled_less)
  with r show ?thesis by (simp only: fl_Num_iff)
qed

lemma is_double_exact:
  "x = of_int m * 2 powi k \<Longrightarrow> \<bar>m\<bar> < 2 ^ 53 \<Longrightarrow> - 1074 \<le> k \<Longrightarrow> k \<le> 971 \<Longrightarrow> is_double x"
  unfolding is_double_def by (rule fl_exact)

lemma is_double_two_powi:
  assumes "- 1074 \<le> k" and "k \<le> 1023"
  shows "is_double (2 powi k)"
proof -
  have "rnd (2 powi k) = 2 powi k" using assms(1) by (rule rnd_two_powi)
  moreover have "(2::real) powi k < 2 powi 1024"
    using assms(2) by (intro two_powi_strict_mono) simp
  then have "\<bar>(2::real) powi k\<bar> < 2 ^ 1024" by simp
  ultimately show ?thesis by (simp only: is_double_iff)
qed

lemma is_double_0 [simp]: "is_double 0"
  by (simp add: is_double_def)

lemma is_double_1 [simp]: "is_double 1"
  by (rule is_double_exact [where m = 1 and k = 0]) simp_all

lemma fl_between:
  assumes "is_double lo" and "is_double hi" and "lo \<le> x" and "x \<le> hi"
  shows "\<exists>v. fl x = Num v \<and> lo \<le> v \<and> v \<le> hi \<and> is_double v"
proof -
  from assms(1,2) have g: "rnd lo = lo" "rnd hi = hi" and b: "\<bar>lo\<bar> < 2 ^ 1024" "\<bar>hi\<bar> < 2 ^ 1024"
    by (simp_all add: is_double_iff)
  have "lo \<le> rnd x" using g(1) assms(3) by (rule rnd_ge)
  moreover have "rnd x \<le> hi" using g(2) assms(4) by (rule rnd_le)
  ultimately have v: "lo \<le> rnd x" "rnd x \<le> hi" "\<bar>rnd x\<bar> < 2 ^ 1024"
    using b by linarith+
  then have "fl x = Num (rnd x)" by (simp add: fl_finite)
  with v fl_idem [of x "rnd x"] show ?thesis by blast
qed

lemma fl_eval:
  assumes "2 powi e \<le> \<bar>x\<bar>" and "\<bar>x\<bar> < 2 powi (e + 1)" and "- 1022 \<le> e" and "e \<le> 1023"
    and "of_int n - 1 / 2 < x / 2 powi (e - 52)" and "x / 2 powi (e - 52) < of_int n + 1 / 2"
    and "\<bar>n\<bar> < 2 ^ 53"
  shows "fl x = Num (of_int n * 2 powi (e - 52))"
proof -
  have e: "expo x = e" using assms(1-3) by (rule expo_eq)
  then have u: "ulp x = 2 powi (e - 52)" by (simp add: ulp_def)
  have "round_even (x / ulp x) = n"
    unfolding u using assms(5,6) by (rule round_even_eval)
  then have r: "rnd x = of_int n * 2 powi (e - 52)" by (simp add: rnd_def u)
  have "\<bar>real_of_int n * 2 powi (e - 52)\<bar> < 2 ^ 1024"
    using assms(7) by (rule abs_scaled_less) (use assms(4) in linarith)
  then have "\<bar>rnd x\<bar> < 2 ^ 1024"
    by (simp only: r)
  then show ?thesis unfolding r [symmetric] by (rule fl_finite)
qed

lemma fl_err:
  assumes "\<bar>x\<bar> \<le> 2 powi k" and "- 1021 \<le> k" and "k \<le> 1023"
  shows "\<exists>v. fl x = Num v \<and> \<bar>v - x\<bar> \<le> 2 powi (k - 53) \<and> \<bar>v\<bar> \<le> 2 powi k \<and> is_double v"
proof -
  have d: "is_double (2 powi k)"
    by (rule is_double_two_powi) (use assms(2,3) in linarith)+
  then have d': "is_double (- (2 powi k))" by (rule is_double_minus)
  from assms(1) have "- (2 powi k) \<le> x" "x \<le> 2 powi k" by linarith+
  from fl_between [OF d' d this] obtain v where
    v: "fl x = Num v" "- (2 powi k) \<le> v" "v \<le> 2 powi k" "is_double v" by blast
  then have vr: "v = rnd x" by (simp add: fl_Num_iff)
  have "\<bar>x\<bar> < 2 powi (k + 1)"
    using assms(1) two_powi_strict_mono [of k "k + 1"] by simp
  then have "ulp x \<le> 2 powi (k + 1 - 53)"
    by (rule ulp_le) (use assms(2) in simp)
  then have "ulp x / 2 \<le> 2 powi (k - 53)"
    using power_int_add [of "2::real" "k - 53" 1] by simp
  with rnd_err [of x] have "\<bar>v - x\<bar> \<le> 2 powi (k - 53)"
    unfolding vr by linarith
  with v show ?thesis by (intro exI [of _ v]) simp
qed

subsection \<open>Arithmetic and clamping\<close>

lemma jsub_Num [simp]: "jsub (Num a) (Num b) = fl (a - b)"
  by (simp add: jsub_def)

lemma fl_small: "\<bar>rnd x\<bar> \<le> 2 \<Longrightarrow> fl x = Num (rnd x)"
proof -
  assume "\<bar>rnd x\<bar> \<le> 2"
  moreover have "(2::real) < 2 ^ 1024"
    using power_strict_increasing [of 1 1024 "2::real"] by simp
  ultimately have "\<bar>rnd x\<bar> < 2 ^ 1024" by linarith
  then show ?thesis by (rule fl_finite)
qed

lemma representable_fl [simp]: "representable (fl x)"
  by (cases "fl x") (simp_all add: fl_idem)

lemma fl_cases: "(\<exists>v. fl x = Num v \<and> is_double v) \<or> fl x = PosInf \<or> fl x = NegInf"
  by (cases "fl x") (simp_all add: fl_idem)

lemma clamp_unit: "x \<noteq> NaN \<Longrightarrow> in_unit (clamp x (Num 0) (Num 1))"
  by (cases x) (auto simp: clamp_def)

lemma clamp_NaN [simp]: "clamp NaN a b = NaN"
  by (simp add: clamp_def)

lemma clamp_unit_double:
  assumes "x \<noteq> NaN" and "representable x"
  shows "\<exists>t. clamp x (Num 0) (Num 1) = Num t \<and> 0 \<le> t \<and> t \<le> 1 \<and> is_double t"
  using assms by (cases x) (auto simp: clamp_def)

lemma in_unitE: "in_unit x \<Longrightarrow> \<exists>r. x = Num r \<and> 0 \<le> r \<and> r \<le> 1"
  by (cases x) simp_all

lemma toFixed_unit: "in_unit x \<Longrightarrow> in_unit (toFixed d x)"
proof (cases x)
  case (Num r)
  assume "in_unit x"
  with Num have r: "0 \<le> r" "r \<le> 1" by simp_all
  have small: "\<not> 10 ^ 21 \<le> \<bar>r\<bar>"
  proof -
    have "(1::real) < 10 ^ 21" by simp
    with r show ?thesis by linarith
  qed
  have lo: "0 \<le> \<lfloor>\<bar>r\<bar> * 10 ^ d + 1 / 2\<rfloor>"
    using r by simp
  have "\<bar>r\<bar> * 10 ^ d + 1 / 2 < 10 ^ d + 1"
  proof -
    have "\<bar>r\<bar> \<le> 1" using r by simp
    then have "\<bar>r\<bar> * 10 ^ d \<le> 1 * 10 ^ d"
      by (rule mult_right_mono) simp
    then have "\<bar>r\<bar> * 10 ^ d \<le> 10 ^ d"
      by (simp only: mult_1)
    then show ?thesis by linarith
  qed
  then have "\<lfloor>\<bar>r\<bar> * 10 ^ d + 1 / 2\<rfloor> < 10 ^ d + 1"
    by (metis floor_less_iff of_int_1 of_int_add of_int_numeral of_int_power)
  then have hi: "\<lfloor>\<bar>r\<bar> * 10 ^ d + 1 / 2\<rfloor> \<le> 10 ^ d" by simp
  have hi': "real_of_int \<lfloor>\<bar>r\<bar> * 10 ^ d + 1 / 2\<rfloor> \<le> 10 ^ d"
    using hi by (metis of_int_le_iff of_int_numeral of_int_power)
  have lo': "0 \<le> real_of_int \<lfloor>\<bar>r\<bar> * 10 ^ d + 1 / 2\<rfloor>"
    using lo by simp
  show ?thesis
  proof (cases "r = 0")
    case True
    with Num show ?thesis by simp
  next
    case False
    with r have "sgn r = 1" by simp
    with Num small lo' hi' show ?thesis
      by (simp add: divide_le_eq)
  qed
qed simp_all

text \<open>A quotient is NaN only as \<open>0/0\<close>; the difference of two distinct doubles is not zero.\<close>

lemma jdiv_fl_NaN_iff: "jdiv (Num a) (fl y) = NaN \<longleftrightarrow> a = 0 \<and> fl y = Num 0"
  using fl_cases [of y] by (auto split: if_splits)

lemma fl_diff_nonzero:
  assumes "is_double a" and "is_double b" and "a \<noteq> b"
  shows "fl (a - b) \<noteq> Num 0"
proof -
  from assms(1,2) have g: "rnd a = a" "rnd b = b" by (simp_all add: is_double_iff)
  from grid_multiple [OF g(1)] grid_multiple [OF g(2)] obtain m n where
    mn: "a = of_int m * 2 powi (- 1074)" "b = of_int n * 2 powi (- 1074)" by blast
  have q: "rnd (2 powi (- 1074)) = 2 powi (- 1074)" by (rule rnd_two_powi) simp
  have pos: "(0::real) < 2 powi (- 1074)" by simp
  have "rnd (a - b) \<noteq> 0"
  proof (cases "b < a")
    case True
    then have "n < m" using mn pos by (simp add: mult_less_cancel_right)
    then have "1 \<le> m - n" by simp
    then have "(1::real) \<le> of_int (m - n)" by (simp only: of_int_1_le_iff)
    then have "1 * 2 powi (- 1074) \<le> of_int (m - n) * (2::real) powi (- 1074)"
      by (intro mult_right_mono) simp_all
    then have "2 powi (- 1074) \<le> a - b" by (simp add: mn algebra_simps)
    with q have "2 powi (- 1074) \<le> rnd (a - b)" by (rule rnd_ge)
    with pos show ?thesis by linarith
  next
    case False
    with assms(3) have "a < b" by simp
    then have "m < n" using mn pos by (simp add: mult_less_cancel_right)
    then have "1 \<le> n - m" by simp
    then have "(1::real) \<le> of_int (n - m)" by (simp only: of_int_1_le_iff)
    then have "1 * 2 powi (- 1074) \<le> of_int (n - m) * (2::real) powi (- 1074)"
      by (intro mult_right_mono) simp_all
    then have "a - b \<le> - (2 powi (- 1074))" by (simp add: mn algebra_simps)
    moreover have "rnd (- (2 powi (- 1074))) = - (2 powi (- 1074))"
      using q by (simp add: rnd_minus)
    ultimately have "rnd (a - b) \<le> - (2 powi (- 1074))" by (intro rnd_le)
    with pos show ?thesis by linarith
  qed
  then show ?thesis by (auto simp: fl_Num_iff)
qed

lemma scroll_progress_NaN_iff:
  "scroll_progress v cur = NaN \<longleftrightarrow> cur = 0 \<and> fl (scrollHeight v - innerHeight v) = Num 0"
proof -
  have "clamp x (Num 0) (Num 1) = NaN \<longleftrightarrow> x = NaN" for x
    by (cases x) (auto simp: clamp_def)
  then show ?thesis
    by (simp add: scroll_progress_def Let_def jdiv_fl_NaN_iff)
qed

lemma scroll_progress_unit:
  "fl (scrollHeight v - innerHeight v) \<noteq> Num 0 \<or> cur \<noteq> 0 \<Longrightarrow> in_unit (scroll_progress v cur)"
proof -
  assume "fl (scrollHeight v - innerHeight v) \<noteq> Num 0 \<or> cur \<noteq> 0"
  then have "jdiv (Num cur) (fl (scrollHeight v - innerHeight v)) \<noteq> NaN"
    by (auto simp: jdiv_fl_NaN_iff)
  then show ?thesis
    by (simp add: scroll_progress_def Let_def clamp_unit)
qed

lemma scroll_progress_NaN:
  "scrollHeight v = innerHeight v \<Longrightarrow> scroll_progress v 0 = NaN"
  by (simp add: scroll_progress_NaN_iff)

lemma traversal_representable:
  assumes "rect_bottom rect \<noteq> 0"
  shows "traversal v rect \<noteq> NaN \<and> representable (traversal v rect)"
proof -
  define q where "q = jdiv (Num (rect_bottom rect)) (fl (rect_height rect + innerHeight v))"
  have q: "q \<noteq> NaN" "representable q"
    unfolding q_def using assms fl_cases [of "rect_height rect + innerHeight v"]
    by (auto simp: jdiv_fl_NaN_iff)
  have "traversal v rect = jsub (Num 1) q"
    by (simp add: traversal_def q_def)
  with q show ?thesis
    by (cases q) (simp_all add: jsub_def)
qed

lemma pressure_target_double:
  "\<exists>t. pressure_target v rect = Num t \<and> 0 \<le> t \<and> t \<le> 1 \<and> is_double t"
proof (cases "rect_top rect < innerHeight v \<and> rect_bottom rect > 0")
  case True
  then have "rect_bottom rect \<noteq> 0" by simp
  from traversal_representable [OF this, of v] clamp_unit_double
  have "\<exists>t. clamp (traversal v rect) (Num 0) (Num 1) = Num t \<and> 0 \<le> t \<and> t \<le> 1 \<and> is_double t"
    by blast
  with True show ?thesis by (simp add: pressure_target_def)
next
  case False
  then show ?thesis by (auto simp: pressure_target_def)
qed

lemma pressure_target_unit: "in_unit (pressure_target v rect)"
  using pressure_target_double [of v rect] by auto

subsection \<open>The doubles of the source's literals and of the sample page\<close>

lemma lit_pressure_factor: "lit pressure_factor = Num (8646911284551352 / 2 ^ 58)"
proof -
  have "fl (3 / 100) = Num (of_int 8646911284551352 * 2 powi (- 6 - 52))"
    by (rule fl_eval) simp_all
  then show ?thesis by (simp add: lit_def pressure_factor_def)
qed

lemma is_double_half [simp]: "is_double (1 / 2)"
  by (rule is_double_exact [where m = 1 and k = "- 1"]) simp_all

lemma is_double_int: "\<bar>n\<bar> < 2 ^ 53 \<Longrightarrow> is_double (of_int n)"
  by (rule is_double_exact [where m = n and k = 0]) simp_all


section \<open>The pressure gauge in binary64\<close>

lemma rnd_err_bound:
  assumes "\<bar>x\<bar> \<le> 2 powi k" and "- 1021 \<le> k"
  shows "\<bar>rnd x - x\<bar> \<le> 2 powi (k - 53)"
proof -
  have "\<bar>x\<bar> < 2 powi (k + 1)"
    using assms(1) two_powi_strict_mono [of k "k + 1"] by simp
  then have "ulp x \<le> 2 powi (k + 1 - 53)"
    by (rule ulp_le) (use assms(2) in simp)
  then have "ulp x / 2 \<le> 2 powi (k - 53)"
    using power_int_add [of "2::real" "k - 53" 1] by simp
  with rnd_err [of x] show ?thesis by linarith
qed

lemma rnd_between:
  assumes "rnd lo = lo" and "rnd hi = hi" and "lo \<le> x" and "x \<le> hi"
  shows "lo \<le> rnd x \<and> rnd x \<le> hi"
  using rnd_ge [OF assms(1,3)] rnd_le [OF assms(2,4)] by simp

lemma rnd_1 [simp]: "rnd 1 = 1"
  using is_double_1 by (simp add: is_double_iff)

text \<open>The increment of a blend between two doubles never exceeds their distance.\<close>

lemma increment_bounds:
  assumes "rnd a = a" and "rnd b = b" and "a < b" and "b - a \<le> 1"
    and "0 \<le> f" and "f \<le> 1 / 2"
  shows "0 \<le> rnd (rnd (b - a) * f) \<and> rnd (rnd (b - a) * f) \<le> b - a"
proof -
  define D where "D = b - a"
  have Dpos: "0 < D" using assms(3) by (simp add: D_def)
  from grid_multiple [OF assms(1)] grid_multiple [OF assms(2)] obtain m n where
    mn: "a = of_int m * 2 powi (- 1074)" "b = of_int n * 2 powi (- 1074)" by blast
  have pos: "(0::real) < 2 powi (- 1074)" by simp
  have "m < n" using assms(3) mn pos by (simp add: mult_less_cancel_right)
  then have "1 \<le> n - m" by simp
  then have "(1::real) \<le> of_int (n - m)" by (simp only: of_int_1_le_iff)
  then have "1 * 2 powi (- 1074) \<le> of_int (n - m) * (2::real) powi (- 1074)"
    by (intro mult_right_mono) simp_all
  then have Dmin: "2 powi (- 1074) \<le> D" by (simp add: D_def mn algebra_simps)
  define j where "j = \<lfloor>log 2 D\<rfloor>"
  have lo: "2 powi j \<le> D" and hi: "D < 2 powi (j + 1)"
    unfolding j_def using Dpos by (rule floor_log2_lower, rule floor_log2_upper)
  have "(2::real) powi (- 1074) < 2 powi (j + 1)" using Dmin hi by linarith
  then have jl: "- 1074 < j + 1" by (rule two_powi_less_cancel)
  have g1: "rnd (2 powi (j + 1)) = 2 powi (j + 1)"
    by (rule rnd_two_powi) (use jl in linarith)
  have g0: "rnd (2 powi j) = 2 powi j"
    by (rule rnd_two_powi) (use jl in linarith)
  have d: "0 \<le> rnd D" "rnd D \<le> 2 powi (j + 1)"
    using rnd_nonneg [of D] Dpos rnd_le [OF g1, of D] hi by simp_all
  have "rnd D * f \<le> 2 powi (j + 1) * (1 / 2)"
    using d assms(5,6) by (intro mult_mono) simp_all
  also have "\<dots> = 2 powi j"
    using power_int_add [of "2::real" j 1] by simp
  finally have df: "rnd D * f \<le> 2 powi j" .
  have "0 \<le> rnd D * f" using d(1) assms(5) by simp
  then have "0 \<le> rnd (rnd D * f)" by (rule rnd_nonneg)
  moreover have "rnd (rnd D * f) \<le> 2 powi j" using g0 df by (rule rnd_le)
  ultimately show ?thesis using lo unfolding D_def by linarith
qed

text \<open>One blend step between doubles of the unit interval, with a factor \<open>f\<close> that is within
  \<open>2^-59\<close> of 0.03: the result lies between the current value and the target, and within
  \<open>2^-52\<close> of the exact blend.\<close>

lemma blend_step:
  fixes c t f :: real
  assumes c: "rnd c = c" "0 \<le> c" "c \<le> 1" and t: "rnd t = t" "0 \<le> t" "t \<le> 1"
    and f: "0 \<le> f" "f \<le> 1 / 32" "\<bar>f - 3 / 100\<bar> \<le> 1 / 2 ^ 59"
  defines "d \<equiv> rnd (t - c)"
  defines "p \<equiv> rnd (d * f)"
  defines "c' \<equiv> rnd (c + p)"
  shows "\<bar>d\<bar> \<le> 1" and "\<bar>p\<bar> \<le> 1"
    and "c \<le> t \<Longrightarrow> c \<le> c' \<and> c' \<le> t"
    and "t \<le> c \<Longrightarrow> t \<le> c' \<and> c' \<le> c"
    and "\<bar>c' - (c + (t - c) * (3 / 100))\<bar> \<le> 1 / 2 ^ 52"
proof -
  have f2: "f \<le> 1 / 2" using f(2) by simp
  have g1: "rnd (- 1) = - 1" using rnd_minus [of 1] by simp
  have dr: "- 1 \<le> d \<and> d \<le> 1"
    unfolding d_def using g1 rnd_1 by (rule rnd_between) (use c t in linarith)+
  then show dabs: "\<bar>d\<bar> \<le> 1" by linarith
  have up: "0 \<le> p \<and> p \<le> t - c" if "c \<le> t"
  proof (cases "c = t")
    case True
    then show ?thesis by (simp add: p_def d_def)
  next
    case False
    with that have "c < t" by simp
    then show ?thesis
      unfolding p_def d_def using c t f(1) f2 by (intro increment_bounds) simp_all
  qed
  have down: "t - c \<le> p \<and> p \<le> 0" if "t \<le> c"
  proof (cases "c = t")
    case True
    then show ?thesis by (simp add: p_def d_def)
  next
    case False
    with that have lt: "t < c" by simp
    have "0 \<le> rnd (rnd (c - t) * f) \<and> rnd (rnd (c - t) * f) \<le> c - t"
      using t(1) c(1) lt c t f(1) f2 by (intro increment_bounds) simp_all
    moreover have "d = - rnd (c - t)"
      unfolding d_def using rnd_minus [of "c - t"] by simp
    then have "p = - rnd (rnd (c - t) * f)"
      unfolding p_def using rnd_minus [of "rnd (c - t) * f"] by simp
    ultimately show ?thesis by simp
  qed
  have pr: "(0 \<le> p \<and> p \<le> t - c) \<or> (t - c \<le> p \<and> p \<le> 0)"
    using up down by linarith
  then show "\<bar>p\<bar> \<le> 1" using c t by linarith
  show A: "c \<le> c' \<and> c' \<le> t" if "c \<le> t"
    unfolding c'_def using c(1) t(1) by (rule rnd_between) (use up [OF that] in linarith)+
  show B: "t \<le> c' \<and> c' \<le> c" if "t \<le> c"
    unfolding c'_def using t(1) c(1) by (rule rnd_between) (use down [OF that] in linarith)+
  have sum01: "\<bar>c + p\<bar> \<le> 2 powi 0" using pr c t by simp linarith
  have e3: "\<bar>c' - (c + p)\<bar> \<le> 2 powi (0 - 53)"
    unfolding c'_def using sum01 by (rule rnd_err_bound) simp
  have "\<bar>t - c\<bar> \<le> 2 powi 0" using c t by simp
  then have e1: "\<bar>d - (t - c)\<bar> \<le> 2 powi (0 - 53)"
    unfolding d_def by (rule rnd_err_bound) simp
  have "\<bar>d * f\<bar> \<le> 1 * (1 / 32)"
    unfolding abs_mult using dabs f by (intro mult_mono) simp_all
  then have "\<bar>d * f\<bar> \<le> 2 powi (- 5)" by simp
  then have e2: "\<bar>p - d * f\<bar> \<le> 2 powi (- 5 - 53)"
    unfolding p_def by (rule rnd_err_bound) simp
  have "\<bar>d * (f - 3 / 100)\<bar> \<le> 1 * (1 / 2 ^ 59)"
    unfolding abs_mult using dabs f(3) by (intro mult_mono) simp_all
  then have e4: "\<bar>d * f - d * (3 / 100)\<bar> \<le> 1 / 2 ^ 59"
    by (simp add: algebra_simps)
  have e1': "\<bar>d - (t - c)\<bar> \<le> 1 / 2 ^ 53" using e1 by simp
  have e2': "\<bar>p - d * f\<bar> \<le> 1 / 2 ^ 58" using e2 by simp
  have e3': "\<bar>c' - (c + p)\<bar> \<le> 1 / 2 ^ 53" using e3 by simp
  have split: "c' - (c + (t - c) * (3 / 100)) =
      (c' - (c + p)) + (p - d * f) + (d * f - d * (3 / 100)) + (d - (t - c)) * (3 / 100)"
    by (simp add: field_simps)
  have e5: "\<bar>(d - (t - c)) * (3 / 100)\<bar> \<le> 1 / 2 ^ 53 * (3 / 100)"
    unfolding abs_mult using e1' by (intro mult_mono) simp_all
  have "\<bar>(c' - (c + p)) + (p - d * f) + (d * f - d * (3 / 100)) + (d - (t - c)) * (3 / 100)\<bar>
      \<le> \<bar>c' - (c + p)\<bar> + \<bar>p - d * f\<bar> + \<bar>d * f - d * (3 / 100)\<bar>
        + \<bar>(d - (t - c)) * (3 / 100)\<bar>"
    by linarith
  also have "\<dots> \<le> 1 / 2 ^ 53 + 1 / 2 ^ 58 + 1 / 2 ^ 59 + 1 / 2 ^ 53 * (3 / 100)"
    by (intro add_mono e3' e2' e4 e5)
  also have "\<dots> \<le> 1 / 2 ^ 52" by simp
  finally show "\<bar>c' - (c + (t - c) * (3 / 100))\<bar> \<le> 1 / 2 ^ 52"
    unfolding split .
qed

section \<open>The controller: basic facts\<close>

lemmas dom_ops = classList_add_def classList_remove_def classList_toggle_def setProperty_def
  focus_def setTimeout_def reveal_observe_def reveal_unobserve_def product_observe_def

lemma forEach_invariant:
  assumes "P s" and "\<And>x s. x \<in> set xs \<Longrightarrow> P s \<Longrightarrow> P (f x s)"
  shows "P (forEach xs f s)"
  using assms by (induction xs arbitrary: s) auto

lemma if_present_invariant:
  assumes "P s" and "\<And>el. P (f el s)"
  shows "P (if_present x f s)"
  using assms by (cases x) auto

lemma forEach_field:
  assumes "\<And>x t. g (f x t) = g t"
  shows "g (forEach xs f s) = g s"
  using assms by (induction xs arbitrary: s) auto

lemma if_present_field:
  assumes "\<And>el t. g (f el t) = g t"
  shows "g (if_present x f s) = g s"
  using assms by (cases x) auto

lemma updateParallax_currentScroll: "currentScroll (updateParallax d v s) = currentScroll s"
  unfolding updateParallax_def
  by (auto intro!: forEach_invariant [where P = "\<lambda>t. currentScroll t = currentScroll s"]
      simp: parallax_def Let_def dom_ops)

lemma updateCursorGlow_currentScroll: "currentScroll (updateCursorGlow d s) = currentScroll s"
  by (simp add: updateCursorGlow_def Let_def dom_ops split: option.splits)

lemma updateBurrGeometry_currentScroll: "currentScroll (updateBurrGeometry d v s) = currentScroll s"
  by (simp add: updateBurrGeometry_def Let_def dom_ops split: option.splits)

lemma updatePressureGauge_currentScroll: "currentScroll (updatePressureGauge d v s) = currentScroll s"
  by (simp add: updatePressureGauge_def Let_def dom_ops split: option.splits)

lemma updateScrollProgress_hint:
  "style (updateScrollProgress d v s) (body d) ''--scroll-progress'' =
     Some (CNum (toFixed 4 (scroll_progress v (currentScroll s))))"
  by (cases "header d") (simp_all add: updateScrollProgress_def Let_def dom_ops)

lemma renderLoop_scroll_progress:
  "style (renderLoop d v s) (body d) ''--scroll-progress'' =
     Some (CNum (toFixed 4 (scroll_progress v (scrollY v))))"
  by (simp add: renderLoop_def updateScrollProgress_hint updatePressureGauge_currentScroll
      updateBurrGeometry_currentScroll updateCursorGlow_currentScroll updateParallax_currentScroll)

text \<open>On every frame of a page that can scroll, and at every offset other than 0 of one
  that cannot, the hint is a number between 0 and 1, whatever the offset.\<close>

lemma scroll_progress_hint_unit:
  assumes "is_double (scrollHeight v)" and "is_double (innerHeight v)"
    and "scrollHeight v \<noteq> innerHeight v \<or> scrollY v \<noteq> 0"
  shows "\<exists>x. style (renderLoop d v s) (body d) ''--scroll-progress'' = Some (CNum x) \<and> in_unit x"
proof -
  have "fl (scrollHeight v - innerHeight v) \<noteq> Num 0 \<or> scrollY v \<noteq> 0"
    using assms fl_diff_nonzero [of "scrollHeight v" "innerHeight v"] by blast
  then have "in_unit (toFixed 4 (scroll_progress v (scrollY v)))"
    by (intro toFixed_unit scroll_progress_unit)
  then show ?thesis by (simp only: renderLoop_scroll_progress) blast
qed

text \<open>
  C2. The scroll-progress hint is meant to lie between 0 and 1 on every frame. It does
  whenever the page can scroll or the offset is not zero (\<open>scroll_progress_hint_unit\<close>
  above). On a page whose body is exactly as high as the viewport, at scroll offset 0, the
  division is \<open>0/0\<close>: \<open>clamp\<close> passes NaN through and the hint published is NaN.
\<close>

theorem scroll_progress_not_a_number:
  "style (renderLoop demo_page (demo_view 0 800) (demo_state False False)) (body demo_page)
     ''--scroll-progress'' = Some (CNum NaN)"
  by (simp add: renderLoop_scroll_progress scroll_progress_NaN demo_view_def)

lemmas forEach_flags [simp] =
  forEach_field [where g = prefersReducedMotion] forEach_field [where g = isTouch]

lemmas controller_defs = renderLoop_def updateScrollProgress_def updatePressureGauge_def
  updateBurrGeometry_def updateCursorGlow_def updateParallax_def parallax_def onMouseMove_def
  spotlight_def revealCallback_def productCallback_def productEntry_def footerCallback_def
  timeout_def magneticMove_def magneticLeave_def toggleMenu_def linkClick_def menuKeydown_def

lemma if_present_flags [simp]:
  "(\<And>el t. prefersReducedMotion (f el t) = prefersReducedMotion t) \<Longrightarrow>
     prefersReducedMotion (if_present x f s) = prefersReducedMotion s"
  "(\<And>el t. isTouch (f el t) = isTouch t) \<Longrightarrow> isTouch (if_present x f s) = isTouch s"
  by (cases x; simp)+

lemma fire_flags [simp]:
  "prefersReducedMotion (fire d tm s) = prefersReducedMotion s"
  "isTouch (fire d tm s) = isTouch s"
  by (cases tm; simp add: dom_ops)+

lemma step_flags [simp]:
  "prefersReducedMotion (step d e s) = prefersReducedMotion s"
  "isTouch (step d e s) = isTouch s"
  by (cases e; simp add: controller_defs Let_def dom_ops split: option.splits)+

lemma run_flags [simp]:
  "prefersReducedMotion (run d es s) = prefersReducedMotion s"
  "isTouch (run d es s) = isTouch s"
  by (induction es arbitrary: s; simp)+

lemma init_flags [simp]:
  "prefersReducedMotion (init d s) = prefersReducedMotion s"
  "isTouch (init d s) = isTouch s"
  by (simp_all add: init_def initIntro_def initScrollReveal_def initProductObserver_def
      initFooterObserver_def dom_ops split: option.splits)

lemmas init_defs = init_def initIntro_def initScrollReveal_def initProductObserver_def
  initFooterObserver_def

lemma init_pressure_current [simp]: "pressure_current (init d s) = pressure_current s"
  by (simp add: init_defs dom_ops forEach_field [where g = pressure_current] split: option.splits)
    (cases "header d"; simp add: dom_ops)

lemma demo_flags:
  "prefersReducedMotion (demo_state r t) = r" "isTouch (demo_state r t) = t"
  by (simp_all add: demo_state_def script_start_def)

lemma demo_sections:
  "querySelector_product demo_page ''stonewave'' = Some 10"
  "querySelector_product demo_page ''mariner-9'' = Some 11"
  by (simp_all add: querySelector_product_def demo_page_def)

subsection \<open>What the listeners leave alone\<close>

lemmas forEach_motion =
  forEach_field [where g = style] forEach_field [where g = pressure_current]
  forEach_field [where g = mouseX] forEach_field [where g = mouseY]

lemmas if_present_motion =
  if_present_field [where g = style] if_present_field [where g = pressure_current]
  if_present_field [where g = mouseX] if_present_field [where g = mouseY]

lemma fire_motion:
  "style (fire d tm s) = style s"
  "pressure_current (fire d tm s) = pressure_current s"
  "mouseX (fire d tm s) = mouseX s"
  "mouseY (fire d tm s) = mouseY s"
  by (cases tm; simp add: dom_ops if_present_motion)+

lemma updateScrollProgress_motion:
  "h \<noteq> ''--scroll-progress'' \<Longrightarrow> style (updateScrollProgress d v s) x h = style s x h"
  "pressure_current (updateScrollProgress d v s) = pressure_current s"
  "mouseX (updateScrollProgress d v s) = mouseX s"
  "mouseY (updateScrollProgress d v s) = mouseY s"
  by (simp_all add: updateScrollProgress_def Let_def dom_ops if_present_motion)

lemma toggleMenu_motion:
  "h \<noteq> ''overflow'' \<Longrightarrow> style (toggleMenu d v s) x h = style s x h"
  "pressure_current (toggleMenu d v s) = pressure_current s"
  "mouseX (toggleMenu d v s) = mouseX s"
  "mouseY (toggleMenu d v s) = mouseY s"
  by (simp_all add: toggleMenu_def Let_def dom_ops if_present_motion)

text \<open>Only a frame changes the pressure scalar.\<close>

lemma step_pressure_current:
  "(\<And>v. e \<noteq> Frame v) \<Longrightarrow> pressure_current (step d e s) = pressure_current s"
proof (cases e)
  case (Frame v)
  moreover assume "\<And>v. e \<noteq> Frame v"
  ultimately show ?thesis by simp
next
  case (MouseMove v cx cy)
  then show ?thesis
    by (simp add: onMouseMove_def spotlight_def Let_def dom_ops forEach_motion
        del: toFixed.simps jdiv.simps)
next
  case (RevealEntries es)
  then show ?thesis by (simp add: revealCallback_def dom_ops forEach_motion)
next
  case (ProductEntries es)
  then show ?thesis
    by (simp add: productCallback_def productEntry_def Let_def dom_ops forEach_motion)
next
  case (FooterEntries es)
  then show ?thesis by (simp add: footerCallback_def dom_ops forEach_motion)
next
  case (Timeout i)
  then show ?thesis by (simp add: timeout_def fire_motion)
next
  case (MagneticMove v el cx cy)
  then show ?thesis by (simp add: magneticMove_def Let_def dom_ops del: jdiv.simps)
next
  case (MagneticLeave el)
  then show ?thesis by (simp add: magneticLeave_def dom_ops)
next
  case (ToggleClick v)
  then show ?thesis by (simp add: toggleMenu_motion)
next
  case (LinkClick v)
  then show ?thesis by (simp add: linkClick_def toggleMenu_motion)
next
  case (MenuKeydown v k sh)
  then show ?thesis
    by (simp add: menuKeydown_def toggleMenu_motion if_present_motion focus_def)
next
  case AnchorClick
  then show ?thesis by simp
qed

section \<open>The pressure gauge\<close>

lemma fl_double: "is_double x \<Longrightarrow> fl x = Num x"
  by (simp add: is_double_def)

lemma pressure_factor_double:
  "(0::real) \<le> 8646911284551352 / 2 ^ 58" "(8646911284551352::real) / 2 ^ 58 \<le> 1 / 32"
  "\<bar>(8646911284551352::real) / 2 ^ 58 - 3 / 100\<bar> \<le> 1 / 2 ^ 59"
  by simp_all

text \<open>One step of the gauge between doubles of the unit interval: the three roundings of
  \<open>lerp\<close> give a double between the current value and the target, within \<open>2^-52\<close> of
  the exact blend.\<close>

lemma lerp_pressure:
  assumes "is_double c" and "0 \<le> c" and "c \<le> 1" and "is_double t" and "0 \<le> t" and "t \<le> 1"
  shows "\<exists>c'. lerp (Num c) (Num t) (lit pressure_factor) = Num c' \<and> is_double c' \<and>
    (c \<le> t \<longrightarrow> c \<le> c' \<and> c' \<le> t) \<and> (t \<le> c \<longrightarrow> t \<le> c' \<and> c' \<le> c) \<and>
    \<bar>c' - (c + (t - c) * (3 / 100))\<bar> \<le> 1 / 2 ^ 52"
proof -
  define f :: real where "f = 8646911284551352 / 2 ^ 58"
  define d where "d = rnd (t - c)"
  define p where "p = rnd (d * f)"
  define c' where "c' = rnd (c + p)"
  have gc: "rnd c = c" and gt: "rnd t = t"
    using assms(1,4) by (simp_all add: is_double_iff)
  have f: "0 \<le> f" "f \<le> 1 / 32" "\<bar>f - 3 / 100\<bar> \<le> 1 / 2 ^ 59"
    unfolding f_def by (rule pressure_factor_double)+
  note b = blend_step [OF gc assms(2,3) gt assms(5,6) f, folded d_def p_def c'_def]
  have d: "fl (t - c) = Num d"
    unfolding d_def using b(1) by (intro fl_small) (simp add: d_def)
  have p: "fl (d * f) = Num p"
    unfolding p_def using b(2) by (intro fl_small) (simp add: p_def)
  have btw: "(c \<le> c' \<and> c' \<le> t) \<or> (t \<le> c' \<and> c' \<le> c)"
    using b(3,4) by linarith
  then have "\<bar>c'\<bar> \<le> 2" using assms(2,3,5,6) by linarith
  then have c': "fl (c + p) = Num c'"
    unfolding c'_def by (intro fl_small)
  have "lerp (Num c) (Num t) (lit pressure_factor) = jadd (Num c) (jmul (fl (t - c)) (Num f))"
    by (simp only: lerp_def lit_pressure_factor f_def jsub_Num)
  also have "\<dots> = jadd (Num c) (fl (d * f))"
    by (simp only: d jmul.simps)
  also have "\<dots> = Num c'"
    by (simp only: p jadd.simps c')
  finally have "lerp (Num c) (Num t) (lit pressure_factor) = Num c'" .
  moreover have "is_double c'" using c' by (rule fl_idem)
  ultimately show ?thesis using b(3,4,5) by blast
qed

lemma updatePressureGauge_current:
  assumes "\<not> prefersReducedMotion s" and "querySelector_product d ''mariner-9'' = Some el"
  shows "pressure_current (updatePressureGauge d v s) =
     lerp (pressure_current s) (pressure_target v (getBoundingClientRect v el)) (lit pressure_factor)"
  using assms by (simp add: updatePressureGauge_def Let_def dom_ops)

lemma updatePressureGauge_hint:
  assumes "\<not> prefersReducedMotion s" and "querySelector_product d ''mariner-9'' = Some el"
  shows "style (updatePressureGauge d v s) el ''--pressure-level'' =
     Some (CNum (toFixed 4 (pressure_current (updatePressureGauge d v s))))"
  using assms by (simp add: updatePressureGauge_def Let_def dom_ops)

text \<open>
  C3. A frame that updates the pressure scalar (motion not reduced, the \<open>mariner-9\<close> section
  on the page) replaces its value \<open>c\<close>, a double between 0 and 1, by
  \<open>lerp(c, t, 0.03)\<close>, where the target \<open>t\<close> lies between 0 and 1. The new value is a
  double between \<open>c\<close> and \<open>t\<close>, ends included: it never passes the target and never moves
  away from it. It differs from \<open>c + (t - c) * 0.03\<close> by at most \<open>2^-52\<close>, so the step is
  0.03 times the remaining distance up to the rounding of the three operations; and it has
  moved strictly whenever the target is at least \<open>2^-46\<close> away. The factor 0.03 is smaller
  than the glow follower's 0.15.
\<close>

theorem pressure_step:
  assumes "\<not> prefersReducedMotion s"
    and "querySelector_product d ''mariner-9'' = Some el"
    and "pressure_current s = Num c" and "is_double c" and "0 \<le> c" and "c \<le> 1"
  shows "\<exists>t c'. pressure_target v (getBoundingClientRect v el) = Num t \<and> 0 \<le> t \<and> t \<le> 1 \<and>
      pressure_current (updatePressureGauge d v s) = Num c' \<and> is_double c' \<and>
      Num c' = lerp (Num c) (Num t) (lit pressure_factor) \<and>
      (c \<le> t \<longrightarrow> c \<le> c' \<and> c' \<le> t) \<and>
      (t \<le> c \<longrightarrow> t \<le> c' \<and> c' \<le> c) \<and>
      \<bar>c' - (c + (t - c) * pressure_factor)\<bar> \<le> 1 / 2 ^ 52 \<and>
      (c + 1 / 2 ^ 46 \<le> t \<longrightarrow> c < c') \<and>
      (t + 1 / 2 ^ 46 \<le> c \<longrightarrow> c' < c) \<and>
      pressure_factor = 0.03 \<and> glow_factor = 0.15 \<and> pressure_factor < glow_factor"
proof -
  obtain t where t: "pressure_target v (getBoundingClientRect v el) = Num t" "0 \<le> t" "t \<le> 1"
    "is_double t"
    using pressure_target_double by blast
  from lerp_pressure [OF assms(4-6) t(4,2,3)] obtain c' where
    l: "lerp (Num c) (Num t) (lit pressure_factor) = Num c'" and dc: "is_double c'"
    and up: "c \<le> t \<longrightarrow> c \<le> c' \<and> c' \<le> t" and down: "t \<le> c \<longrightarrow> t \<le> c' \<and> c' \<le> c"
    and err: "\<bar>c' - (c + (t - c) * (3 / 100))\<bar> \<le> 1 / 2 ^ 52"
    by blast
  have cur: "pressure_current (updatePressureGauge d v s) = Num c'"
    using updatePressureGauge_current [OF assms(1,2), of v] by (simp add: assms(3) t(1) l)
  have err': "\<bar>c' - (c + (t - c) * pressure_factor)\<bar> \<le> 1 / 2 ^ 52"
    using err by (simp add: pressure_factor_def)
  have far: "(1::real) / 2 ^ 52 < 1 / 2 ^ 46 * (3 / 100)" by simp
  have su: "c < c'" if "c + 1 / 2 ^ 46 \<le> t"
  proof -
    from that have "1 / 2 ^ 46 * (3 / 100) \<le> (t - c) * (3 / 100)"
      by (intro mult_right_mono) simp_all
    with far err show ?thesis by linarith
  qed
  have sd: "c' < c" if "t + 1 / 2 ^ 46 \<le> c"
  proof -
    from that have "1 / 2 ^ 46 * (3 / 100) \<le> (c - t) * (3 / 100)"
      by (intro mult_right_mono) simp_all
    then have "(t - c) * (3 / 100) \<le> - (1 / 2 ^ 46 * (3 / 100))"
      by (simp add: algebra_simps)
    with far err show ?thesis by linarith
  qed
  have fac: "pressure_factor = 0.03 \<and> glow_factor = 0.15 \<and> pressure_factor < glow_factor"
    by (simp add: pressure_factor_def glow_factor_def)
  from t(1-3) cur dc l up down err' su sd fac show ?thesis
    by (intro exI [of _ t] exI [of _ c']) simp
qed

lemma fl_1200 [simp]: "fl 1200 = Num 1200"
  using is_double_int [of 1200] by (simp add: is_double_def)

lemma fl_half [simp]: "fl (1 / 2) = Num (1 / 2)"
  using is_double_half by (simp add: is_double_def)

lemma demo_target:
  "pressure_target (demo_view y sh) (getBoundingClientRect (demo_view y sh) 11) = Num (1 / 2)"
  by (simp add: pressure_target_def traversal_def demo_view_def box_def clamp_def)

theorem pressure_step_witness:
  "\<exists>c'. pressure_current
           (updatePressureGauge demo_page (demo_view 0 3000) (demo_state False False)) = Num c'
        \<and> is_double c' \<and> 0 < c' \<and> c' \<le> 1 / 2 \<and> \<bar>c' - 3 / 200\<bar> \<le> 1 / 2 ^ 52"
proof -
  have nr: "\<not> prefersReducedMotion (demo_state False False)"
    by (simp add: demo_flags)
  have c0: "pressure_current (demo_state False False) = Num 0"
    by (simp add: demo_state_def script_start_def)
  from pressure_step [OF nr demo_sections(2) c0, of "demo_view 0 3000"] obtain t c' where
    t: "pressure_target (demo_view 0 3000) (getBoundingClientRect (demo_view 0 3000) 11) = Num t"
    and c': "pressure_current
      (updatePressureGauge demo_page (demo_view 0 3000) (demo_state False False)) = Num c'"
    and dc: "is_double c'"
    and up: "0 \<le> t \<longrightarrow> 0 \<le> c' \<and> c' \<le> t"
    and err: "\<bar>c' - (0 + (t - 0) * pressure_factor)\<bar> \<le> 1 / 2 ^ 52"
    and strict: "0 + 1 / 2 ^ 46 \<le> t \<longrightarrow> 0 < c'"
    by (simp only: is_double_0 order_refl zero_le_one) blast
  from t have th: "t = 1 / 2" by (simp add: demo_target)
  from strict have "0 < c'" by (simp add: th)
  moreover from up have "c' \<le> 1 / 2" by (simp add: th)
  moreover from err have "\<bar>c' - 3 / 200\<bar> \<le> 1 / 2 ^ 52" by (simp add: th pressure_factor_def)
  ultimately show ?thesis using c' dc by blast
qed

text \<open>The three roundings of \<open>lerp\<close> at \<open>1/2 - 2^-50\<close> with target \<open>1/2\<close>: the distance
  \<open>2^-50\<close> and its product with the double of 0.03 are exact, and the sum lies less than half
  a spacing above the current value, so it rounds back to it.\<close>

lemma stalled_blend:
  "lerp (Num (1 / 2 - 1 / 2 ^ 50)) (Num (1 / 2)) (lit pressure_factor) = Num (1 / 2 - 1 / 2 ^ 50)"
proof -
  define c :: real where "c = 1 / 2 - 1 / 2 ^ 50"
  define f :: real where "f = 8646911284551352 / 2 ^ 58"
  define q :: real where "q = 1 / 2 ^ 50"
  define p :: real where "p = 8646911284551352 / 2 ^ 108"
  have d: "fl (1 / 2 - c) = Num q"
  proof -
    have "q = of_int 1 * 2 powi (- 50)" by (simp add: q_def)
    then have "fl q = Num q" by (rule fl_exact) simp_all
    moreover have "1 / 2 - c = q" by (simp add: c_def q_def)
    ultimately show ?thesis by (simp only:)
  qed
  have m: "fl (q * f) = Num p"
  proof -
    have "p = of_int 8646911284551352 * 2 powi (- 108)" by (simp add: p_def)
    then have "fl p = Num p" by (rule fl_exact) simp_all
    moreover have "q * f = p" by (simp add: p_def q_def f_def)
    ultimately show ?thesis by (simp only:)
  qed
  have a: "fl (c + p) = Num c"
  proof -
    have "fl (c + p) = Num (of_int 9007199254740976 * 2 powi (- 2 - 52))"
      by (rule fl_eval) (simp_all add: c_def p_def)
    moreover have "of_int 9007199254740976 * 2 powi (- 2 - 52) = c" by (simp add: c_def)
    ultimately show ?thesis by (simp only:)
  qed
  have "lerp (Num c) (Num (1 / 2)) (lit pressure_factor) = jadd (Num c) (jmul (fl (1 / 2 - c)) (Num f))"
    by (simp only: lerp_def lit_pressure_factor f_def jsub_Num)
  also have "\<dots> = Num c"
    by (simp only: d m a jmul.simps jadd.simps)
  finally show ?thesis by (simp only: c_def)
qed

lemma updatePressureGauge_cong:
  assumes "prefersReducedMotion s = prefersReducedMotion s'"
    and "pressure_current s = pressure_current s'"
  shows "pressure_current (updatePressureGauge d v s) = pressure_current (updatePressureGauge d v s')"
  using assms by (simp add: updatePressureGauge_def Let_def dom_ops split: option.splits)

lemma updateScrollProgress_pressure_current [simp]:
  "pressure_current (updateScrollProgress d v s) = pressure_current s"
  by (cases "header d") (simp_all add: updateScrollProgress_def Let_def dom_ops)

lemma before_gauge:
  "prefersReducedMotion (updateBurrGeometry d v (updateCursorGlow d
      (updateParallax d v (s\<lparr>currentScroll := y\<rparr>)))) = prefersReducedMotion s"
  "pressure_current (updateBurrGeometry d v (updateCursorGlow d
      (updateParallax d v (s\<lparr>currentScroll := y\<rparr>)))) = pressure_current s"
  by (simp_all add: updateBurrGeometry_def updateCursorGlow_def updateParallax_def parallax_def
      Let_def dom_ops forEach_field [where g = pressure_current] split: option.splits)

text \<open>A frame changes the scalar as the gauge update alone does.\<close>

lemma renderLoop_pressure_current:
  "pressure_current (renderLoop d v s) = pressure_current (updatePressureGauge d v s)"
  unfolding renderLoop_def updateScrollProgress_pressure_current
  by (rule updatePressureGauge_cong) (rule before_gauge)+

text \<open>
  C3 as first stated fails: below the target the update need not move the scalar at all.
  On the sample page the target of the gauge is 0.5; with the scalar at
  \<open>1/2 - 2^-50\<close> (0.4999999999999991) the increment \<open>2^-50 * 0.03\<close> is less than half the
  spacing \<open>2^-54\<close> of the doubles there, the sum rounds back to the current value, and the
  frame leaves the scalar where it was, short of the target.
\<close>

theorem pressure_stalls_below_target:
  "\<not> prefersReducedMotion stalled_state \<and>
   pressure_current stalled_state = Num (1 / 2 - 1 / 2 ^ 50) \<and>
   is_double (1 / 2 - 1 / 2 ^ 50) \<and> (1 / 2 - 1 / 2 ^ 50 :: real) < 1 / 2 \<and>
   pressure_target (demo_view 0 3000) (getBoundingClientRect (demo_view 0 3000) 11) = Num (1 / 2) \<and>
   pressure_current (updatePressureGauge demo_page (demo_view 0 3000) stalled_state)
     = Num (1 / 2 - 1 / 2 ^ 50) \<and>
   pressure_current (renderLoop demo_page (demo_view 0 3000) stalled_state)
     = Num (1 / 2 - 1 / 2 ^ 50)"
proof -
  have nr: "\<not> prefersReducedMotion stalled_state"
    by (simp add: stalled_state_def demo_flags)
  have cur: "pressure_current stalled_state = Num (1 / 2 - 1 / 2 ^ 50)"
    by (simp add: stalled_state_def)
  have dbl: "is_double (1 / 2 - 1 / 2 ^ 50)"
    by (rule is_double_exact [where m = 9007199254740976 and k = "- 54"]) simp_all
  have upd: "pressure_current (updatePressureGauge demo_page (demo_view 0 3000) stalled_state)
      = Num (1 / 2 - 1 / 2 ^ 50)"
    by (simp only: updatePressureGauge_current [OF nr demo_sections(2)] cur demo_target
        stalled_blend)
  have "(1 / 2 - 1 / 2 ^ 50 :: real) < 1 / 2" by simp
  with nr cur dbl upd show ?thesis
    by (simp only: renderLoop_pressure_current demo_target simp_thms)
qed

subsection \<open>The pressure scalar stays a double between 0 and 1\<close>

text \<open>The scalar starts at 0 and every target is a double between 0 and 1, so in every
  state the script reaches the scalar is a double of the unit interval, as the statement
  of C3 assumes of the value it starts from.\<close>

lemma lerp_unit:
  assumes "in_unit a" and "representable a" and "in_unit b" and "representable b"
  shows "in_unit (lerp a b (lit pressure_factor)) \<and> representable (lerp a b (lit pressure_factor))"
proof -
  from assms obtain x y where a: "a = Num x" "0 \<le> x" "x \<le> 1" "is_double x"
    and b: "b = Num y" "0 \<le> y" "y \<le> 1" "is_double y"
    using in_unitE by (metis representable.simps(1))
  from lerp_pressure [OF a(4,2,3) b(4,2,3)] obtain c' where
    c': "lerp (Num x) (Num y) (lit pressure_factor) = Num c'" "is_double c'"
    "x \<le> y \<longrightarrow> x \<le> c' \<and> c' \<le> y" "y \<le> x \<longrightarrow> y \<le> c' \<and> c' \<le> x"
    by blast
  from c'(3,4) a(2,3) b(2,3) have "0 \<le> c' \<and> c' \<le> 1" by linarith
  with c'(1,2) show ?thesis by (simp add: a(1) b(1))
qed

lemma updatePressureGauge_unit:
  assumes "in_unit (pressure_current s)" and "representable (pressure_current s)"
  shows "in_unit (pressure_current (updatePressureGauge d v s)) \<and>
    representable (pressure_current (updatePressureGauge d v s))"
proof (cases "prefersReducedMotion s \<or> querySelector_product d ''mariner-9'' = None")
  case True
  with assms show ?thesis by (auto simp: updatePressureGauge_def)
next
  case False
  then obtain el where el: "\<not> prefersReducedMotion s" "querySelector_product d ''mariner-9'' = Some el"
    by auto
  obtain t where t: "pressure_target v (getBoundingClientRect v el) = Num t" "0 \<le> t" "t \<le> 1"
    "is_double t"
    using pressure_target_double by blast
  then have "in_unit (Num t)" "representable (Num t)" by simp_all
  with assms show ?thesis
    unfolding updatePressureGauge_current [OF el] t(1) by (intro lerp_unit)
qed

lemma step_pressure_unit:
  assumes "in_unit (pressure_current s)" and "representable (pressure_current s)"
  shows "in_unit (pressure_current (step d e s)) \<and> representable (pressure_current (step d e s))"
proof (cases "\<exists>v. e = Frame v")
  case True
  then obtain v where "e = Frame v" by blast
  with updatePressureGauge_unit [OF assms, of d v] show ?thesis
    by (simp add: renderLoop_pressure_current)
next
  case False
  then have "pressure_current (step d e s) = pressure_current s"
    by (intro step_pressure_current) blast
  with assms show ?thesis by simp
qed

lemma run_pressure_unit:
  "in_unit (pressure_current s) \<Longrightarrow> representable (pressure_current s) \<Longrightarrow>
     in_unit (pressure_current (run d es s)) \<and> representable (pressure_current (run d es s))"
proof (induction es arbitrary: s)
  case Nil
  then show ?case by simp
next
  case (Cons e es)
  from step_pressure_unit [OF Cons.prems, of d e] show ?case
    by (simp add: Cons.IH)
qed

lemma reachable_pressure_unit:
  "\<exists>c. pressure_current (run d es (init d (script_start reduced touch y markup aria focused))) = Num c
     \<and> is_double c \<and> 0 \<le> c \<and> c \<le> 1"
proof -
  let ?s = "init d (script_start reduced touch y markup aria focused)"
  have "in_unit (pressure_current ?s)" "representable (pressure_current ?s)"
    by (simp_all add: script_start_def)
  from run_pressure_unit [OF this, of d es] show ?thesis
    by (cases "pressure_current (run d es ?s)") simp_all
qed

section \<open>Class markers\<close>

lemmas forEach_classList = forEach_field [where g = classList]

lemma updateParallax_classList [simp]: "classList (updateParallax d v s) = classList s"
  by (simp add: updateParallax_def parallax_def Let_def dom_ops forEach_classList)

lemma updateCursorGlow_classList [simp]: "classList (updateCursorGlow d s) = classList s"
  by (simp add: updateCursorGlow_def Let_def dom_ops split: option.splits)

lemma updateBurrGeometry_classList [simp]: "classList (updateBurrGeometry d v s) = classList s"
  by (simp add: updateBurrGeometry_def Let_def dom_ops split: option.splits)

lemma updatePressureGauge_classList [simp]: "classList (updatePressureGauge d v s) = classList s"
  by (simp add: updatePressureGauge_def Let_def dom_ops split: option.splits)

lemma onMouseMove_classList [simp]: "classList (onMouseMove d v x y s) = classList s"
  by (simp add: onMouseMove_def spotlight_def Let_def dom_ops forEach_classList)

lemma magnetic_classList [simp]:
  "classList (magneticMove v el x y s) = classList s"
  "classList (magneticLeave el s) = classList s"
  by (simp_all add: magneticMove_def magneticLeave_def Let_def dom_ops)

lemma if_present_classList [simp]:
  "classList (if_present y (\<lambda>h. classList_add h c') s) x =
     (if y = Some x then insert c' (classList s x) else classList s x)"
  "classList (if_present y (\<lambda>h. classList_remove h c') s) x =
     (if y = Some x then classList s x - {c'} else classList s x)"
  "classList (if_present y focus s) = classList s"
  by (cases y; auto simp: dom_ops)+

lemma updateScrollProgress_class:
  "c \<noteq> ''is-scrolled'' \<Longrightarrow>
     (c \<in> classList (updateScrollProgress d v s) x) = (c \<in> classList s x)"
  by (auto simp: updateScrollProgress_def Let_def setProperty_def)

lemma renderLoop_class:
  "c \<noteq> ''is-scrolled'' \<Longrightarrow> (c \<in> classList (renderLoop d v s) x) = (c \<in> classList s x)"
  by (simp add: renderLoop_def updateScrollProgress_class)

lemma revealCallback_class:
  "c \<noteq> ''is-visible'' \<Longrightarrow> (c \<in> classList (revealCallback es s) x) = (c \<in> classList s x)"
  unfolding revealCallback_def
  by (rule forEach_invariant [where P = "\<lambda>t. (c \<in> classList t x) = (c \<in> classList s x)"])
     (auto simp: dom_ops)

lemma revealCallback_mono:
  "c \<in> classList s x \<Longrightarrow> c \<in> classList (revealCallback es s) x"
  unfolding revealCallback_def
  by (rule forEach_invariant [where P = "\<lambda>t. c \<in> classList t x"]) (auto simp: dom_ops)

lemma remove_all_class:
  "c \<noteq> c' \<Longrightarrow>
     (c \<in> classList (forEach xs (\<lambda>el. classList_remove el c') s) x) = (c \<in> classList s x)"
  by (rule forEach_invariant [where P = "\<lambda>t. (c \<in> classList t x) = (c \<in> classList s x)"])
     (auto simp: dom_ops)

lemma productEntry_class:
  "c \<noteq> ''is-active'' \<Longrightarrow> (c \<in> classList (productEntry d e s) x) = (c \<in> classList s x)"
  by (auto simp: productEntry_def Let_def classList_add_def remove_all_class)

lemma productCallback_class:
  "c \<noteq> ''is-active'' \<Longrightarrow> (c \<in> classList (productCallback d es s) x) = (c \<in> classList s x)"
  unfolding productCallback_def
  by (rule forEach_invariant [where P = "\<lambda>t. (c \<in> classList t x) = (c \<in> classList s x)"])
     (simp_all add: productEntry_class)

lemma footerCallback_class:
  "c \<noteq> ''is-footer-visible'' \<Longrightarrow>
     (c \<in> classList (footerCallback d es s) x) = (c \<in> classList s x)"
  unfolding footerCallback_def
  by (rule forEach_invariant [where P = "\<lambda>t. (c \<in> classList t x) = (c \<in> classList s x)"])
     (auto simp: dom_ops)

lemma fire_mono: "c \<in> classList s x \<Longrightarrow> c \<in> classList (fire d tm s) x"
  by (cases tm) (auto simp: classList_add_def)

lemma fire_class:
  "c \<notin> {''is-visible'', ''intro-step-1'', ''intro-step-2''} \<Longrightarrow>
     (c \<in> classList (fire d tm s) x) = (c \<in> classList s x)"
  by (cases tm) (auto simp: classList_add_def)

lemma timeout_mono: "c \<in> classList s x \<Longrightarrow> c \<in> classList (timeout d i s) x"
  by (simp add: timeout_def fire_mono)

lemma timeout_class:
  "c \<notin> {''is-visible'', ''intro-step-1'', ''intro-step-2''} \<Longrightarrow>
     (c \<in> classList (timeout d i s) x) = (c \<in> classList s x)"
  by (simp add: timeout_def fire_class del: insert_iff)

lemma toggleMenu_class:
  "c \<noteq> ''nav-open'' \<Longrightarrow> (c \<in> classList (toggleMenu d v s) x) = (c \<in> classList s x)"
  by (auto simp: toggleMenu_def Let_def dom_ops)

lemma linkClick_class:
  "c \<noteq> ''nav-open'' \<Longrightarrow> (c \<in> classList (linkClick d v s) x) = (c \<in> classList s x)"
  by (simp add: linkClick_def toggleMenu_class)

lemma menuKeydown_class:
  "c \<noteq> ''nav-open'' \<Longrightarrow> (c \<in> classList (menuKeydown d v k sh s) x) = (c \<in> classList s x)"
  by (simp add: menuKeydown_def toggleMenu_class)

text \<open>The script removes four class names only; a class of any other name, once on an
  element, stays on it through every event.\<close>

lemma step_keeps_class:
  assumes "c \<in> classList s x"
    and "c \<notin> {''is-scrolled'', ''is-active'', ''is-footer-visible'', ''nav-open''}"
  shows "c \<in> classList (step d e s) x"
  using assms
  by (cases e)
     (simp_all add: renderLoop_class revealCallback_mono productCallback_class
        footerCallback_class timeout_mono toggleMenu_class linkClick_class menuKeydown_class)

lemma run_keeps_class:
  assumes "c \<in> classList s x"
    and "c \<notin> {''is-scrolled'', ''is-active'', ''is-footer-visible'', ''nav-open''}"
  shows "c \<in> classList (run d es s) x"
  using assms by (induction es arbitrary: s) (simp_all add: step_keeps_class del: insert_iff)

text \<open>Only the active-section observer touches the active marker.\<close>

lemma step_is_active:
  assumes "\<And>es. e \<noteq> ProductEntries es"
  shows "(''is-active'' \<in> classList (step d e s) x) = (''is-active'' \<in> classList s x)"
  using assms
  by (cases e)
     (auto simp: renderLoop_class revealCallback_class
        footerCallback_class timeout_class toggleMenu_class linkClick_class menuKeydown_class)


section \<open>Reveal observer\<close>

lemmas forEach_revealObserved = forEach_field [where g = revealObserved]

lemma if_present_revealObserved [simp]:
  "(\<And>el t. revealObserved (f el t) = revealObserved t) \<Longrightarrow>
     revealObserved (if_present y f s) = revealObserved s"
  by (cases y) simp_all

lemma fire_revealObserved [simp]: "revealObserved (fire d tm s) = revealObserved s"
  by (cases tm) (simp_all add: dom_ops)

lemma revealCallback_revealObserved: "revealObserved (revealCallback es s) \<subseteq> revealObserved s"
  unfolding revealCallback_def
  by (rule forEach_invariant [where P = "\<lambda>t. revealObserved t \<subseteq> revealObserved s"])
     (auto simp: dom_ops)

lemma step_revealObserved: "revealObserved (step d e s) \<subseteq> revealObserved s"
proof (cases e)
  case (RevealEntries es)
  then show ?thesis by (simp add: revealCallback_revealObserved)
qed (simp_all add: controller_defs Let_def dom_ops forEach_revealObserved split: option.splits)

lemma run_revealObserved: "revealObserved (run d es s) \<subseteq> revealObserved s"
proof (induction es arbitrary: s)
  case Nil
  show ?case by simp
next
  case (Cons e es)
  have "revealObserved (run d es (step d e s)) \<subseteq> revealObserved (step d e s)"
    by (rule Cons.IH)
  with step_revealObserved [of d e s] show ?case by auto
qed

lemma revealCallback_Cons:
  "revealCallback (e # es) s =
     revealCallback es (if isIntersecting e
       then reveal_unobserve (target e) (classList_add (target e) ''is-visible'' s) else s)"
  by (simp add: revealCallback_def)

lemma revealCallback_fires:
  assumes "e \<in> set es" and "isIntersecting e"
  shows "''is-visible'' \<in> classList (revealCallback es s) (target e) \<and>
         target e \<notin> revealObserved (revealCallback es s)"
  using assms(1)
proof (induction es arbitrary: s)
  case Nil
  then show ?case by simp
next
  case (Cons a es)
  show ?case
  proof (cases "a = e")
    case True
    let ?t = "reveal_unobserve (target e) (classList_add (target e) ''is-visible'' s)"
    have "''is-visible'' \<in> classList ?t (target e)" "target e \<notin> revealObserved ?t"
      by (simp_all add: dom_ops)
    with revealCallback_mono [of "''is-visible''" ?t "target e" es]
      revealCallback_revealObserved [of es ?t]
    show ?thesis
      using True assms(2) by (auto simp: revealCallback_Cons)
  next
    case False
    with Cons.prems have "e \<in> set es" by simp
    then show ?thesis
      unfolding revealCallback_Cons by (rule Cons.IH)
  qed
qed

section \<open>Active-section observer\<close>

lemma remove_all_removes:
  "x \<in> set xs \<Longrightarrow> c \<notin> classList (forEach xs (\<lambda>el. classList_remove el c) s) x"
proof (induction xs arbitrary: s)
  case Nil
  then show ?case by simp
next
  case (Cons a xs)
  show ?case
  proof (cases "x = a")
    case True
    have "c \<notin> classList (forEach xs (\<lambda>el. classList_remove el c) (classList_remove a c s)) x"
      by (rule forEach_invariant [where P = "\<lambda>t. c \<notin> classList t x"])
         (auto simp: True dom_ops)
    then show ?thesis by simp
  next
    case False
    with Cons show ?thesis by simp
  qed
qed

lemma productEntry_active:
  assumes "isIntersecting e"
  shows "active_sections d (productEntry d e s) = {target e} \<inter> set (productSections d)"
  using assms
  by (auto simp: active_sections_def productEntry_def Let_def classList_add_def
      remove_all_removes)

lemma card_le_one_singleton_Int: "card ({a} \<inter> A) \<le> 1"
proof -
  have "card ({a} \<inter> A) \<le> card {a}"
    by (rule card_mono) simp_all
  then show ?thesis by simp
qed

lemma productEntry_card:
  assumes "card (active_sections d s) \<le> 1"
  shows "card (active_sections d (productEntry d e s)) \<le> 1"
proof (cases "isIntersecting e")
  case True
  then have "active_sections d (productEntry d e s) = {target e} \<inter> set (productSections d)"
    by (rule productEntry_active)
  then show ?thesis
    by (simp only: card_le_one_singleton_Int)
next
  case False
  then have "productEntry d e s = s"
    by (simp add: productEntry_def)
  with assms show ?thesis by simp
qed

lemma productCallback_card:
  assumes "card (active_sections d s) \<le> 1"
  shows "card (active_sections d (productCallback d es s)) \<le> 1"
  unfolding productCallback_def
proof (rule forEach_invariant [where P = "\<lambda>t. card (active_sections d t) \<le> 1"])
  show "card (active_sections d s) \<le> 1" by (rule assms)
next
  fix x t
  assume "card (active_sections d t) \<le> 1"
  then show "card (active_sections d (productEntry d x t)) \<le> 1"
    by (rule productEntry_card)
qed

lemma step_card:
  assumes "card (active_sections d s) \<le> 1"
  shows "card (active_sections d (step d e s)) \<le> 1"
proof (cases "\<exists>es. e = ProductEntries es")
  case True
  then obtain es where "e = ProductEntries es" by blast
  then have "step d e s = productCallback d es s" by simp
  with assms show ?thesis
    by (simp only: productCallback_card)
next
  case False
  then have ne: "\<And>es. e \<noteq> ProductEntries es" by blast
  have "active_sections d (step d e s) = active_sections d s"
    unfolding active_sections_def by (simp only: step_is_active [OF ne])
  with assms show ?thesis by simp
qed

lemma run_card:
  "card (active_sections d s) \<le> 1 \<Longrightarrow> card (active_sections d (run d es s)) \<le> 1"
proof (induction es arbitrary: s)
  case Nil
  then show ?case by simp
next
  case (Cons e es)
  from Cons.prems have "card (active_sections d (step d e s)) \<le> 1"
    by (rule step_card)
  then have "card (active_sections d (run d es (step d e s))) \<le> 1"
    by (rule Cons.IH)
  then show ?case by simp
qed

lemma init_class:
  "c \<notin> {''is-visible'', ''is-loaded''} \<Longrightarrow> (c \<in> classList (init d s) x) = (c \<in> classList s x)"
proof -
  assume c: "c \<notin> {''is-visible'', ''is-loaded''}"
  have intro: "(c \<in> classList (initIntro d s) x) = (c \<in> classList s x)"
    using c by (cases "header d") (auto simp: initIntro_def dom_ops)
  have add_all: "(c \<in> classList (forEach xs (\<lambda>el. classList_add el ''is-visible'') t) x)
      = (c \<in> classList t x)" for xs t
    using c
    by (intro forEach_invariant [where P = "\<lambda>u. (c \<in> classList u x) = (c \<in> classList t x)"])
       (auto simp: dom_ops)
  have reveal: "(c \<in> classList (initScrollReveal d t) x) = (c \<in> classList t x)" for t
    by (simp add: initScrollReveal_def add_all forEach_classList reveal_observe_def)
  have rest: "classList (initFooterObserver d (initProductObserver d t)) = classList t" for t
    by (simp add: initFooterObserver_def initProductObserver_def dom_ops forEach_classList
        split: option.splits)
  show ?thesis
    by (simp add: init_def rest reveal intro)
qed

lemma init_active: "active_sections d (init d s) = active_sections d s"
  by (simp add: active_sections_def init_class)


text \<open>
  C4. Once the reveal observer's callback has seen an intersecting entry for an element, the
  element carries \<open>is-visible\<close> and is no longer observed, and both stay so through every
  later event; a further intersecting entry for it changes no class; and no event of the
  script ever takes \<open>is-visible\<close> off an element.
\<close>

theorem reveal_fire_once:
  assumes "e \<in> set es" and "isIntersecting e"
  shows "''is-visible'' \<in> classList (run d evs (step d (RevealEntries es) s)) (target e)
       \<and> target e \<notin> revealObserved (run d evs (step d (RevealEntries es) s))
       \<and> classList (step d (RevealEntries [e]) (run d evs (step d (RevealEntries es) s)))
           = classList (run d evs (step d (RevealEntries es) s))
       \<and> (\<forall>ev t x. ''is-visible'' \<in> classList t x \<longrightarrow> ''is-visible'' \<in> classList (step d ev t) x)"
proof -
  let ?t = "step d (RevealEntries es) s"
  have fired: "''is-visible'' \<in> classList ?t (target e)" "target e \<notin> revealObserved ?t"
    using revealCallback_fires [OF assms, of s] by simp_all
  have vis: "''is-visible'' \<in> classList (run d evs ?t) (target e)"
    using fired(1) by (rule run_keeps_class) simp
  have unobs: "target e \<notin> revealObserved (run d evs ?t)"
    using fired(2) run_revealObserved [of d evs ?t] by blast
  have "insert ''is-visible'' (classList (run d evs ?t) (target e)) = classList (run d evs ?t) (target e)"
    using vis by (rule insert_absorb)
  then have idem: "classList (step d (RevealEntries [e]) (run d evs ?t)) = classList (run d evs ?t)"
    by (simp add: revealCallback_def dom_ops)
  have keep: "\<forall>ev t x. ''is-visible'' \<in> classList t x \<longrightarrow> ''is-visible'' \<in> classList (step d ev t) x"
    by (simp add: step_keeps_class)
  from vis unobs idem keep show ?thesis by blast
qed

theorem reveal_fire_once_witness:
  "''is-visible'' \<in> classList
      (run demo_page [RevealEntries [\<lparr>target = 20, isIntersecting = False\<rparr>], Frame (demo_view 150 3000)]
        (step demo_page
          (RevealEntries [\<lparr>target = 21, isIntersecting = False\<rparr>, \<lparr>target = 20, isIntersecting = True\<rparr>])
          (demo_state False False))) 20
   \<and> 20 \<notin> revealObserved
      (run demo_page [RevealEntries [\<lparr>target = 20, isIntersecting = False\<rparr>], Frame (demo_view 150 3000)]
        (step demo_page
          (RevealEntries [\<lparr>target = 21, isIntersecting = False\<rparr>, \<lparr>target = 20, isIntersecting = True\<rparr>])
          (demo_state False False)))
   \<and> ''is-visible'' \<notin> classList (demo_state False False) 20
   \<and> 20 \<in> revealObserved (demo_state False False)"
proof -
  have "\<lparr>target = 20, isIntersecting = True\<rparr>
      \<in> set [\<lparr>target = 21, isIntersecting = False\<rparr>, \<lparr>target = 20, isIntersecting = True\<rparr>]"
    and "isIntersecting \<lparr>target = 20, isIntersecting = True\<rparr>"
    by simp_all
  from reveal_fire_once [OF this, of demo_page
      "[RevealEntries [\<lparr>target = 20, isIntersecting = False\<rparr>], Frame (demo_view 150 3000)]"
      "demo_state False False"]
  have "''is-visible'' \<in> classList
      (run demo_page [RevealEntries [\<lparr>target = 20, isIntersecting = False\<rparr>], Frame (demo_view 150 3000)]
        (step demo_page
          (RevealEntries [\<lparr>target = 21, isIntersecting = False\<rparr>, \<lparr>target = 20, isIntersecting = True\<rparr>])
          (demo_state False False))) 20
   \<and> 20 \<notin> revealObserved
      (run demo_page [RevealEntries [\<lparr>target = 20, isIntersecting = False\<rparr>], Frame (demo_view 150 3000)]
        (step demo_page
          (RevealEntries [\<lparr>target = 21, isIntersecting = False\<rparr>, \<lparr>target = 20, isIntersecting = True\<rparr>])
          (demo_state False False)))"
    by simp
  moreover have "''is-visible'' \<notin> classList (demo_state False False) 20
      \<and> 20 \<in> revealObserved (demo_state False False)"
    by (simp add: demo_state_def demo_page_def script_start_def init_defs dom_ops)
  ultimately show ?thesis by blast
qed

text \<open>
  C5. If no section is active when the script starts, then after \<open>init\<close> and any sequence of
  events at most one section carries \<open>is-active\<close>. The callback of the active-section
  observer, on an intersecting entry, leaves the marker on the entry's target and on no other
  section; and every event preserves "at most one".
\<close>

theorem at_most_one_active:
  assumes "active_sections d s0 = {}"
  shows "card (active_sections d (run d evs (init d s0))) \<le> 1
       \<and> active_sections d (init d s0) = {}
       \<and> (\<forall>e t. isIntersecting e \<longrightarrow>
             active_sections d (productEntry d e t) = {target e} \<inter> set (productSections d))
       \<and> (\<forall>ev t. card (active_sections d t) \<le> 1 \<longrightarrow> card (active_sections d (step d ev t)) \<le> 1)"
proof -
  have start: "active_sections d (init d s0) = {}"
    using assms by (simp only: init_active)
  then have "card (active_sections d (init d s0)) \<le> 1" by simp
  then have reach: "card (active_sections d (run d evs (init d s0))) \<le> 1"
    by (rule run_card)
  from reach start productEntry_active step_card show ?thesis by blast
qed

theorem at_most_one_active_witness:
  "card (active_sections demo_page
     (run demo_page
       [ProductEntries [\<lparr>target = 10, isIntersecting = True\<rparr>],
        ProductEntries [\<lparr>target = 11, isIntersecting = True\<rparr>, \<lparr>target = 10, isIntersecting = False\<rparr>]]
       (init demo_page (script_start False False 0 (\<lambda>_. {}) (Some ''false'') None)))) \<le> 1
   \<and> active_sections demo_page
     (step demo_page (ProductEntries [\<lparr>target = 10, isIntersecting = True\<rparr>])
       (init demo_page (script_start False False 0 (\<lambda>_. {}) (Some ''false'') None))) = {10}"
proof -
  have "active_sections demo_page (script_start False False 0 (\<lambda>_. {}) (Some ''false'') None) = {}"
    by (simp add: active_sections_def script_start_def)
  note th = at_most_one_active [OF this, of
      "[ProductEntries [\<lparr>target = 10, isIntersecting = True\<rparr>],
        ProductEntries [\<lparr>target = 11, isIntersecting = True\<rparr>, \<lparr>target = 10, isIntersecting = False\<rparr>]]"]
  from th have one: "card (active_sections demo_page
     (run demo_page
       [ProductEntries [\<lparr>target = 10, isIntersecting = True\<rparr>],
        ProductEntries [\<lparr>target = 11, isIntersecting = True\<rparr>, \<lparr>target = 10, isIntersecting = False\<rparr>]]
       (init demo_page (script_start False False 0 (\<lambda>_. {}) (Some ''false'') None)))) \<le> 1"
    by (rule conjunct1)
  have i: "isIntersecting \<lparr>target = 10, isIntersecting = True\<rparr>" by simp
  from th i have "active_sections demo_page
       (productEntry demo_page \<lparr>target = 10, isIntersecting = True\<rparr>
         (init demo_page (script_start False False 0 (\<lambda>_. {}) (Some ''false'') None)))
       = {target \<lparr>target = 10, isIntersecting = True\<rparr>} \<inter> set (productSections demo_page)"
    by blast
  then have "active_sections demo_page
     (step demo_page (ProductEntries [\<lparr>target = 10, isIntersecting = True\<rparr>])
       (init demo_page (script_start False False 0 (\<lambda>_. {}) (Some ''false'') None))) = {10}"
    by (simp add: productCallback_def demo_page_def)
  with one show ?thesis by (rule conjI)
qed

section \<open>Motion loop under reduced motion and touch\<close>

lemma updateCursorGlow_skipped:
  "isTouch s \<or> prefersReducedMotion s \<Longrightarrow> updateCursorGlow d s = s"
  by (cases "cursorGlow d") (auto simp: updateCursorGlow_def)

subsection \<open>The burr geometry\<close>

lemma updateBurrGeometry_hints:
  assumes "\<not> prefersReducedMotion s" and "querySelector_product d ''stonewave'' = Some g"
    and "rect_top (getBoundingClientRect v g) < innerHeight v"
    and "0 < rect_bottom (getBoundingClientRect v g)"
  shows "style (updateBurrGeometry d v s) g ''--burr-rotate'' =
      Some (CDeg (toFixed 1 (jmul (traversal v (getBoundingClientRect v g)) (Num 360))))"
    and "style (updateBurrGeometry d v s) g ''--burr-opacity'' =
      Some (CNum (toFixed 3 (Math_sin
        (jmul (clamp (traversal v (getBoundingClientRect v g)) (Num 0) (Num 1)) Math_PI))))"
  using assms by (simp_all add: updateBurrGeometry_def Let_def dom_ops del: toFixed.simps)

lemma updateBurrGeometry_cong:
  assumes "prefersReducedMotion t = prefersReducedMotion s" and "style t x p = style s x p"
  shows "style (updateBurrGeometry d v t) x p = style (updateBurrGeometry d v s) x p"
  using assms
  by (auto simp: updateBurrGeometry_def Let_def dom_ops simp del: toFixed.simps
      split: option.splits)

lemma before_burr:
  assumes "p = ''--burr-rotate'' \<or> p = ''--burr-opacity''"
  shows "prefersReducedMotion (updateCursorGlow d (updateParallax d v (s\<lparr>currentScroll := y\<rparr>)))
      = prefersReducedMotion s"
    and "style (updateCursorGlow d (updateParallax d v (s\<lparr>currentScroll := y\<rparr>))) x p = style s x p"
proof -
  let ?s0 = "s\<lparr>currentScroll := y\<rparr>"
  have par: "style (parallax v sec t) x p = style t x p" for sec t
    using assms by (auto simp: parallax_def Let_def dom_ops simp del: toFixed.simps)
  have "style (updateParallax d v ?s0) x p = style ?s0 x p"
    by (simp add: updateParallax_def forEach_field [where g = "\<lambda>t. style t x p"] par)
  moreover have "style (updateCursorGlow d t) x p = style t x p" for t
    using assms
    by (auto simp: updateCursorGlow_def Let_def dom_ops simp del: toFixed.simps
        split: option.splits)
  ultimately show "style (updateCursorGlow d (updateParallax d v ?s0)) x p = style s x p"
    by simp
  show "prefersReducedMotion (updateCursorGlow d (updateParallax d v ?s0)) = prefersReducedMotion s"
    by (simp add: updateCursorGlow_def updateParallax_def parallax_def Let_def dom_ops
        del: toFixed.simps split: option.splits)
qed

text \<open>A frame leaves the burr hints as the burr update alone does.\<close>

lemma renderLoop_burr:
  assumes "p = ''--burr-rotate'' \<or> p = ''--burr-opacity''"
  shows "style (renderLoop d v s) x p = style (updateBurrGeometry d v s) x p"
proof -
  let ?t = "updateCursorGlow d (updateParallax d v (s\<lparr>currentScroll := scrollY v\<rparr>))"
  have "style (renderLoop d v s) x p = style (updatePressureGauge d v (updateBurrGeometry d v ?t)) x p"
    using assms by (auto simp: renderLoop_def updateScrollProgress_motion)
  also have "\<dots> = style (updateBurrGeometry d v ?t) x p"
    using assms
    by (auto simp: updatePressureGauge_def Let_def dom_ops simp del: toFixed.simps
        split: option.splits)
  also have "\<dots> = style (updateBurrGeometry d v s) x p"
    by (rule updateBurrGeometry_cong) (rule before_burr [OF assms])+
  finally show ?thesis .
qed

lemma renderLoop_pressure_level:
  assumes "\<not> prefersReducedMotion s" and "querySelector_product d ''mariner-9'' = Some m"
  shows "style (renderLoop d v s) m ''--pressure-level'' =
     Some (CNum (toFixed 4 (pressure_current (renderLoop d v s))))"
proof -
  let ?t = "updateBurrGeometry d v (updateCursorGlow d
      (updateParallax d v (s\<lparr>currentScroll := scrollY v\<rparr>)))"
  have nr: "\<not> prefersReducedMotion ?t"
    using assms(1) by (simp add: before_gauge)
  have "style (renderLoop d v s) m ''--pressure-level'' =
      style (updatePressureGauge d v ?t) m ''--pressure-level''"
    by (simp add: renderLoop_def updateScrollProgress_motion)
  also have "\<dots> = Some (CNum (toFixed 4 (pressure_current (updatePressureGauge d v ?t))))"
    using nr assms(2) by (rule updatePressureGauge_hint)
  also have "pressure_current (updatePressureGauge d v ?t) = pressure_current (renderLoop d v s)"
    by (simp add: renderLoop_def)
  finally show ?thesis .
qed

text \<open>
  C6, as amended. Under reduced motion each of the four motion updates returns the state as it
  got it, so a frame is the scroll-progress bookkeeping alone. On a touch device the parallax
  and glow updates return the state unchanged, and a frame is the burr-geometry update, the
  pressure update and the scroll-progress bookkeeping, in this order. Whenever motion is not
  reduced, on a touch device as on any other, the burr update writes the rotation and the
  opacity of the \<open>stonewave\<close> section while it is on screen, the pressure update replaces the
  scalar by its blend with the target and publishes it, and the frame as a whole leaves just
  these values. On every frame the scroll-progress hint is written.
\<close>

theorem motion_skipped:
  "(prefersReducedMotion s \<longrightarrow>
      updateParallax d v s = s \<and> updateCursorGlow d s = s \<and>
      updateBurrGeometry d v s = s \<and> updatePressureGauge d v s = s \<and>
      renderLoop d v s = updateScrollProgress d v (s\<lparr>currentScroll := scrollY v\<rparr>))
   \<and> (isTouch s \<longrightarrow>
      updateParallax d v s = s \<and> updateCursorGlow d s = s \<and>
      renderLoop d v s =
        updateScrollProgress d v
          (updatePressureGauge d v (updateBurrGeometry d v (s\<lparr>currentScroll := scrollY v\<rparr>))))
   \<and> (\<not> prefersReducedMotion s \<and> querySelector_product d ''stonewave'' = Some g \<and>
      rect_top (getBoundingClientRect v g) < innerHeight v \<and>
      0 < rect_bottom (getBoundingClientRect v g) \<longrightarrow>
      style (updateBurrGeometry d v s) g ''--burr-rotate'' =
        Some (CDeg (toFixed 1 (jmul (traversal v (getBoundingClientRect v g)) (Num 360)))) \<and>
      style (updateBurrGeometry d v s) g ''--burr-opacity'' =
        Some (CNum (toFixed 3 (Math_sin
          (jmul (clamp (traversal v (getBoundingClientRect v g)) (Num 0) (Num 1)) Math_PI)))) \<and>
      style (renderLoop d v s) g ''--burr-rotate'' =
        style (updateBurrGeometry d v s) g ''--burr-rotate'' \<and>
      style (renderLoop d v s) g ''--burr-opacity'' =
        style (updateBurrGeometry d v s) g ''--burr-opacity'')
   \<and> (\<not> prefersReducedMotion s \<and> querySelector_product d ''mariner-9'' = Some m \<longrightarrow>
      pressure_current (updatePressureGauge d v s) =
        lerp (pressure_current s) (pressure_target v (getBoundingClientRect v m))
          (lit pressure_factor) \<and>
      pressure_current (renderLoop d v s) = pressure_current (updatePressureGauge d v s) \<and>
      style (renderLoop d v s) m ''--pressure-level'' =
        Some (CNum (toFixed 4 (pressure_current (renderLoop d v s)))))
   \<and> style (renderLoop d v s) (body d) ''--scroll-progress'' =
        Some (CNum (toFixed 4 (scroll_progress v (scrollY v))))"
proof -
  have red: "prefersReducedMotion s \<longrightarrow>
      updateParallax d v s = s \<and> updateCursorGlow d s = s \<and>
      updateBurrGeometry d v s = s \<and> updatePressureGauge d v s = s \<and>
      renderLoop d v s = updateScrollProgress d v (s\<lparr>currentScroll := scrollY v\<rparr>)"
    by (simp add: updateParallax_def updateCursorGlow_skipped updateBurrGeometry_def
        updatePressureGauge_def renderLoop_def)
  have touch: "isTouch s \<longrightarrow>
      updateParallax d v s = s \<and> updateCursorGlow d s = s \<and>
      renderLoop d v s =
        updateScrollProgress d v
          (updatePressureGauge d v (updateBurrGeometry d v (s\<lparr>currentScroll := scrollY v\<rparr>)))"
    by (simp add: updateParallax_def updateCursorGlow_skipped renderLoop_def)
  have burr: "\<not> prefersReducedMotion s \<and> querySelector_product d ''stonewave'' = Some g \<and>
      rect_top (getBoundingClientRect v g) < innerHeight v \<and>
      0 < rect_bottom (getBoundingClientRect v g) \<longrightarrow>
      style (updateBurrGeometry d v s) g ''--burr-rotate'' =
        Some (CDeg (toFixed 1 (jmul (traversal v (getBoundingClientRect v g)) (Num 360)))) \<and>
      style (updateBurrGeometry d v s) g ''--burr-opacity'' =
        Some (CNum (toFixed 3 (Math_sin
          (jmul (clamp (traversal v (getBoundingClientRect v g)) (Num 0) (Num 1)) Math_PI)))) \<and>
      style (renderLoop d v s) g ''--burr-rotate'' =
        style (updateBurrGeometry d v s) g ''--burr-rotate'' \<and>
      style (renderLoop d v s) g ''--burr-opacity'' =
        style (updateBurrGeometry d v s) g ''--burr-opacity''"
    using updateBurrGeometry_hints [of s d g v] renderLoop_burr [of _ d v s g] by blast
  have gauge: "\<not> prefersReducedMotion s \<and> querySelector_product d ''mariner-9'' = Some m \<longrightarrow>
      pressure_current (updatePressureGauge d v s) =
        lerp (pressure_current s) (pressure_target v (getBoundingClientRect v m))
          (lit pressure_factor) \<and>
      pressure_current (renderLoop d v s) = pressure_current (updatePressureGauge d v s) \<and>
      style (renderLoop d v s) m ''--pressure-level'' =
        Some (CNum (toFixed 4 (pressure_current (renderLoop d v s))))"
    using updatePressureGauge_current [of s d m v] renderLoop_pressure_current [of d v s]
      renderLoop_pressure_level [of s d m v] by blast
  from red touch burr gauge renderLoop_scroll_progress [of d v s] show ?thesis
    by (intro conjI)
qed

subsection \<open>The sample page on a touch device\<close>

lemma fl_int: "\<bar>n\<bar> < 2 ^ 53 \<Longrightarrow> fl (of_int n) = Num (of_int n)"
  using is_double_int [of n] by (simp add: is_double_def)

lemma fl_1600 [simp]: "fl 1600 = Num 1600"
  using fl_int [of 1600] by simp

lemma fl_180 [simp]: "fl 180 = Num 180"
  using fl_int [of 180] by simp

lemma fl_20000 [simp]: "fl 20000 = Num 20000"
  using fl_int [of 20000] by simp

lemma demo_traversal:
  "traversal (demo_view y sh) (getBoundingClientRect (demo_view y sh) 10) = Num (1 / 2)"
  by (simp add: traversal_def demo_view_def box_def)

lemma demo_rotation:
  "toFixed 1 (jmul (traversal (demo_view y sh) (getBoundingClientRect (demo_view y sh) 10)) (Num 360))
     = Num 180"
  by (simp add: demo_traversal)

text \<open>The first step of the gauge from 0 toward 0.5: half the double of 0.03, which prints
  as 0.0150.\<close>

lemma first_blend:
  "lerp (Num 0) (Num (1 / 2)) (lit pressure_factor) = Num (8646911284551352 / 2 ^ 59)"
proof -
  define f :: real where "f = 8646911284551352 / 2 ^ 58"
  define p :: real where "p = 8646911284551352 / 2 ^ 59"
  have m: "fl (1 / 2 * f) = Num p"
  proof -
    have "p = of_int 8646911284551352 * 2 powi (- 59)" by (simp add: p_def)
    then have "fl p = Num p" by (rule fl_exact) simp_all
    moreover have "1 / 2 * f = p" by (simp add: p_def f_def)
    ultimately show ?thesis by (simp only:)
  qed
  have a: "fl (0 + p) = Num p" using m by (simp add: f_def p_def)
  have "lerp (Num 0) (Num (1 / 2)) (lit pressure_factor) = jadd (Num 0) (jmul (fl (1 / 2 - 0)) (Num f))"
    by (simp only: lerp_def lit_pressure_factor f_def jsub_Num)
  also have "\<dots> = jadd (Num 0) (jmul (Num (1 / 2)) (Num f))"
    by simp
  also have "\<dots> = Num p"
    by (simp only: m a jmul.simps jadd.simps)
  finally show ?thesis by (simp only: p_def)
qed

lemma first_level: "toFixed 4 (Num (8646911284551352 / 2 ^ 59)) = Num (3 / 200)"
  by simp

text \<open>Scroll offset 3 on a page that scrolls by 20000: the double of 0.00015 lies below
  0.00015, and the hint printed with four decimals is 0.0001.\<close>

lemma scroll_progress_tie: "toFixed 4 (scroll_progress (demo_view 3 20800) 3) = Num (1 / 10000)"
proof -
  define x :: real where "x = 5534023222112865 / 2 ^ 65"
  have "fl (3 / 20000) = Num (of_int 5534023222112865 * 2 powi (- 13 - 52))"
    by (rule fl_eval) simp_all
  then have q: "fl (3 / 20000) = Num x" by (simp add: x_def)
  have "scroll_progress (demo_view 3 20800) 3 = clamp (Num x) (Num 0) (Num 1)"
    by (simp add: scroll_progress_def demo_view_def q)
  also have "\<dots> = Num x" by (simp add: clamp_def x_def)
  finally show ?thesis by (simp add: x_def)
qed

theorem motion_skipped_witness:
  "renderLoop demo_page (demo_view 150 3000) (demo_state True False) =
     updateScrollProgress demo_page (demo_view 150 3000) ((demo_state True False)\<lparr>currentScroll := 150\<rparr>)
   \<and> updatePressureGauge demo_page (demo_view 150 3000) (demo_state True False) = demo_state True False
   \<and> updateBurrGeometry demo_page (demo_view 150 3000) (demo_state True False) = demo_state True False
   \<and> updateParallax demo_page (demo_view 150 3000) (demo_state False True) = demo_state False True
   \<and> updateCursorGlow demo_page (demo_state False True) = demo_state False True
   \<and> style (renderLoop demo_page (demo_view 150 3000) (demo_state False True)) 10 ''--burr-rotate''
       = Some (CDeg (Num 180))
   \<and> pressure_current (renderLoop demo_page (demo_view 150 3000) (demo_state False True))
       = Num (8646911284551352 / 2 ^ 59)
   \<and> style (renderLoop demo_page (demo_view 150 3000) (demo_state False True)) 11 ''--pressure-level''
       = Some (CNum (Num (3 / 200)))
   \<and> style (renderLoop demo_page (demo_view 3 20800) (demo_state False True)) 0 ''--scroll-progress''
       = Some (CNum (Num (1 / 10000)))"
proof -
  let ?v = "demo_view 150 3000"
  let ?r = "demo_state True False" and ?t = "demo_state False True"
  have r: "prefersReducedMotion ?r"
    and t: "isTouch ?t" and nr: "\<not> prefersReducedMotion ?t"
    by (simp_all add: demo_flags)
  have y: "scrollY ?v = 150" "scrollY (demo_view 3 20800) = 3"
    by (simp_all add: demo_view_def)
  have vis: "rect_top (getBoundingClientRect ?v 10) < innerHeight ?v"
    "0 < rect_bottom (getBoundingClientRect ?v 10)"
    by (simp_all add: demo_view_def box_def)
  have c0: "pressure_current ?t = Num 0"
    by (simp add: demo_state_def script_start_def)
  have b: "body demo_page = 0" by (simp add: demo_page_def)
  from motion_skipped [of ?r demo_page ?v] r
  have red: "renderLoop demo_page ?v ?r =
      updateScrollProgress demo_page ?v (?r\<lparr>currentScroll := scrollY ?v\<rparr>)
    \<and> updatePressureGauge demo_page ?v ?r = ?r \<and> updateBurrGeometry demo_page ?v ?r = ?r"
    by blast
  from motion_skipped [of ?t demo_page ?v] t
  have touch: "updateParallax demo_page ?v ?t = ?t \<and> updateCursorGlow demo_page ?t = ?t"
    by blast
  from motion_skipped [of ?t demo_page ?v 10 11] nr demo_sections vis
  have burr: "style (renderLoop demo_page ?v ?t) 10 ''--burr-rotate'' =
      Some (CDeg (toFixed 1 (jmul (traversal ?v (getBoundingClientRect ?v 10)) (Num 360))))"
    and gauge: "pressure_current (renderLoop demo_page ?v ?t) =
      lerp (pressure_current ?t) (pressure_target ?v (getBoundingClientRect ?v 11))
        (lit pressure_factor)"
    and level: "style (renderLoop demo_page ?v ?t) 11 ''--pressure-level'' =
      Some (CNum (toFixed 4 (pressure_current (renderLoop demo_page ?v ?t))))"
    by simp_all
  from motion_skipped [of ?t demo_page "demo_view 3 20800"]
  have scroll: "style (renderLoop demo_page (demo_view 3 20800) ?t) (body demo_page)
      ''--scroll-progress'' =
      Some (CNum (toFixed 4 (scroll_progress (demo_view 3 20800) (scrollY (demo_view 3 20800)))))"
    by blast
  have g: "pressure_current (renderLoop demo_page ?v ?t) = Num (8646911284551352 / 2 ^ 59)"
    by (simp only: gauge c0 demo_target first_blend)
  have l: "style (renderLoop demo_page ?v ?t) 11 ''--pressure-level'' = Some (CNum (Num (3 / 200)))"
    by (simp only: level g first_level)
  have br: "style (renderLoop demo_page ?v ?t) 10 ''--burr-rotate'' = Some (CDeg (Num 180))"
    by (simp only: burr demo_rotation)
  have sc: "style (renderLoop demo_page (demo_view 3 20800) ?t) 0 ''--scroll-progress''
      = Some (CNum (Num (1 / 10000)))"
    using scroll by (simp only: y b scroll_progress_tie)
  from red touch br g l sc show ?thesis
    by (simp only: y simp_thms)
qed

text \<open>C6 as first stated fails on a touch device: with motion not reduced, the pressure
  update moves the scalar of the sample page from 0 to half the double of 0.03, and the
  burr update writes a rotation of 180 degrees.\<close>

theorem touch_pressure_still_runs:
  "isTouch (demo_state False True) \<and> \<not> prefersReducedMotion (demo_state False True)
   \<and> pressure_current (demo_state False True) = Num 0
   \<and> pressure_current (updatePressureGauge demo_page (demo_view 0 3000) (demo_state False True))
       = Num (8646911284551352 / 2 ^ 59)
   \<and> updatePressureGauge demo_page (demo_view 0 3000) (demo_state False True)
       \<noteq> demo_state False True
   \<and> style (demo_state False True) 10 ''--burr-rotate'' = None
   \<and> style (updateBurrGeometry demo_page (demo_view 0 3000) (demo_state False True)) 10
       ''--burr-rotate'' = Some (CDeg (Num 180))"
proof -
  let ?v = "demo_view 0 3000" and ?t = "demo_state False True"
  have f: "isTouch ?t" "\<not> prefersReducedMotion ?t"
    by (simp_all add: demo_flags)
  have c0: "pressure_current ?t = Num 0"
    by (simp add: demo_state_def script_start_def)
  have p: "pressure_current (updatePressureGauge demo_page ?v ?t) = Num (8646911284551352 / 2 ^ 59)"
    by (simp only: updatePressureGauge_current [OF f(2) demo_sections(2)] c0 demo_target
        first_blend)
  have "pressure_current (updatePressureGauge demo_page ?v ?t) \<noteq> pressure_current ?t"
    unfolding p c0 by simp
  then have ne: "updatePressureGauge demo_page ?v ?t \<noteq> ?t"
    by auto
  have vis: "rect_top (getBoundingClientRect ?v 10) < innerHeight ?v"
    "0 < rect_bottom (getBoundingClientRect ?v 10)"
    by (simp_all add: demo_view_def box_def)
  have s0: "style ?t 10 ''--burr-rotate'' = None"
    by (simp add: demo_state_def script_start_def init_defs dom_ops demo_page_def)
  have br: "style (updateBurrGeometry demo_page ?v ?t) 10 ''--burr-rotate'' = Some (CDeg (Num 180))"
    by (simp only: updateBurrGeometry_hints(1) [OF f(2) demo_sections(1) vis] demo_rotation)
  from f c0 p ne s0 br show ?thesis by (intro conjI)
qed

section \<open>Mobile navigation\<close>

lemma toggleMenu_opens:
  assumes "aria_expanded s \<noteq> Some ''true''"
  shows "aria_expanded (toggleMenu d v s) = Some ''true''"
    and "(''nav-open'' \<in> classList (toggleMenu d v s) (html d)) = (''nav-open'' \<notin> classList s (html d))"
    and "style (toggleMenu d v s) (body d) ''overflow'' = Some (CStr ''hidden'')"
    and "timers (toggleMenu d v s) = timers s @ [(100, FocusFirst)]"
    and "activeElement (toggleMenu d v s) = activeElement s"
    and "lastScrollPosition (toggleMenu d v s) = Some (scrollY v)"
  using assms by (simp_all add: toggleMenu_def Let_def dom_ops)

lemma toggleMenu_closes:
  assumes "aria_expanded s = Some ''true''" and "navToggle d = Some tg"
  shows "aria_expanded (toggleMenu d v s) = Some ''false''"
    and "(''nav-open'' \<in> classList (toggleMenu d v s) (html d)) = (''nav-open'' \<notin> classList s (html d))"
    and "style (toggleMenu d v s) (body d) ''overflow'' = Some (CStr [])"
    and "timers (toggleMenu d v s) = timers s"
    and "activeElement (toggleMenu d v s) = Some tg"
  using assms by (simp_all add: toggleMenu_def Let_def dom_ops)

text \<open>
  C8. With the nav toggle and the menu on the page: a click on the toggle while the menu is
  closed opens it, sets \<open>aria-expanded\<close> to \<open>true\<close>, sets the body's \<open>overflow\<close> to
  \<open>hidden\<close> and schedules, 100 ms later, the focusing of the menu's first focusable item (focus
  does not move before); an Escape keydown on the menu while it is open closes it, sets
  \<open>aria-expanded\<close> to \<open>false\<close>, clears the body's \<open>overflow\<close> and focuses the toggle.
\<close>

theorem nav_open_and_escape:
  assumes "nav_on d"
  shows "(menu_closed d s \<longrightarrow>
            menu_open d (step d (ToggleClick v) s)
          \<and> aria_expanded (step d (ToggleClick v) s) = Some ''true''
          \<and> style (step d (ToggleClick v) s) (body d) ''overflow'' = Some (CStr ''hidden'')
          \<and> timers (step d (ToggleClick v) s) = timers s @ [(100, FocusFirst)]
          \<and> activeElement (step d (ToggleClick v) s) = activeElement s
          \<and> (\<forall>f. firstFocusable d = Some f \<longrightarrow>
                activeElement (step d (Timeout (length (timers s))) (step d (ToggleClick v) s))
                  = Some f))
       \<and> (menu_open d s \<longrightarrow>
            menu_closed d (step d (MenuKeydown v ''Escape'' sh) s)
          \<and> aria_expanded (step d (MenuKeydown v ''Escape'' sh) s) = Some ''false''
          \<and> style (step d (MenuKeydown v ''Escape'' sh) s) (body d) ''overflow'' = Some (CStr [])
          \<and> activeElement (step d (MenuKeydown v ''Escape'' sh) s) = navToggle d)"
proof -
  from assms obtain tg where tg: "navToggle d = Some tg"
    by (auto simp: nav_on_def)
  have opens: "menu_open d (step d (ToggleClick v) s)
          \<and> aria_expanded (step d (ToggleClick v) s) = Some ''true''
          \<and> style (step d (ToggleClick v) s) (body d) ''overflow'' = Some (CStr ''hidden'')
          \<and> timers (step d (ToggleClick v) s) = timers s @ [(100, FocusFirst)]
          \<and> activeElement (step d (ToggleClick v) s) = activeElement s
          \<and> (\<forall>f. firstFocusable d = Some f \<longrightarrow>
                activeElement (step d (Timeout (length (timers s))) (step d (ToggleClick v) s))
                  = Some f)"
    if closed: "menu_closed d s"
  proof -
    from closed have a: "aria_expanded s \<noteq> Some ''true''" and c: "''nav-open'' \<notin> classList s (html d)"
      by (simp_all add: menu_closed_def)
    have st: "step d (ToggleClick v) s = toggleMenu d v s"
      using assms by simp
    have fire: "activeElement (timeout d (length (timers s)) (toggleMenu d v s)) = Some f"
      if "firstFocusable d = Some f" for f
      using that by (simp add: timeout_def toggleMenu_opens(4) [OF a] focus_def)
    show ?thesis
      unfolding st using toggleMenu_opens [OF a, of d v] c fire
      by (simp add: menu_open_def)
  qed
  have closes: "menu_closed d (step d (MenuKeydown v ''Escape'' sh) s)
          \<and> aria_expanded (step d (MenuKeydown v ''Escape'' sh) s) = Some ''false''
          \<and> style (step d (MenuKeydown v ''Escape'' sh) s) (body d) ''overflow'' = Some (CStr [])
          \<and> activeElement (step d (MenuKeydown v ''Escape'' sh) s) = navToggle d"
    if opened: "menu_open d s"
  proof -
    from opened have a: "aria_expanded s = Some ''true''" and c: "''nav-open'' \<in> classList s (html d)"
      by (simp_all add: menu_open_def)
    have st: "step d (MenuKeydown v ''Escape'' sh) s = toggleMenu d v s"
      using assms by (simp add: menuKeydown_def)
    show ?thesis
      unfolding st using toggleMenu_closes [OF a tg, of v] c tg
      by (simp add: menu_closed_def)
  qed
  from opens closes show ?thesis by blast
qed

lemma demo_nav:
  "nav_on demo_page"
  "menu_closed demo_page (demo_state False False)"
  "length (timers (demo_state False False)) = 3"
  "firstFocusable demo_page = Some 40"
  "navToggle demo_page = Some 6"
  by (simp_all add: nav_on_def menu_closed_def demo_state_def script_start_def init_defs dom_ops
      demo_page_def firstFocusable_def)

theorem nav_open_and_escape_witness:
  "menu_open demo_page (step demo_page (ToggleClick (demo_view 0 3000)) (demo_state False False))
   \<and> activeElement (step demo_page (Timeout 3)
        (step demo_page (ToggleClick (demo_view 0 3000)) (demo_state False False))) = Some 40
   \<and> menu_closed demo_page (step demo_page (MenuKeydown (demo_view 0 3000) ''Escape'' False)
        (step demo_page (ToggleClick (demo_view 0 3000)) (demo_state False False)))
   \<and> activeElement (step demo_page (MenuKeydown (demo_view 0 3000) ''Escape'' False)
        (step demo_page (ToggleClick (demo_view 0 3000)) (demo_state False False))) = Some 6"
proof -
  let ?v = "demo_view 0 3000"
  let ?s = "demo_state False False"
  let ?t = "step demo_page (ToggleClick ?v) ?s"
  note a = nav_open_and_escape [OF demo_nav(1), of ?s ?v False]
  from a demo_nav(2) have o: "menu_open demo_page ?t"
    by blast
  from a demo_nav(2) have "\<forall>f. firstFocusable demo_page = Some f \<longrightarrow>
      activeElement (step demo_page (Timeout (length (timers ?s))) ?t) = Some f"
    by blast
  with demo_nav(3,4) have f: "activeElement (step demo_page (Timeout 3) ?t) = Some 40"
    by simp
  note b = nav_open_and_escape [OF demo_nav(1), of ?t ?v False]
  from b o have c: "menu_closed demo_page (step demo_page (MenuKeydown ?v ''Escape'' False) ?t)"
    by blast
  from b o have "activeElement (step demo_page (MenuKeydown ?v ''Escape'' False) ?t)
      = navToggle demo_page"
    by blast
  with demo_nav(5) have g: "activeElement (step demo_page (MenuKeydown ?v ''Escape'' False) ?t) = Some 6"
    by simp
  from o f c g show ?thesis by blast
qed


text \<open>
  C10. The menu's keydown listener calls \<open>toggleMenu\<close> on Escape without looking at the
  state: an Escape keydown on the closed menu opens it and sets \<open>aria-expanded\<close> to \<open>true\<close>.
  The link listener does look: a link click on a menu that is not expanded changes nothing.
\<close>

theorem escape_toggles_closed_menu:
  assumes "nav_on d"
  shows "step d (MenuKeydown v ''Escape'' sh) s = toggleMenu d v s
       \<and> step d (MenuKeydown v ''Escape'' sh) s = step d (ToggleClick v) s
       \<and> (menu_closed d s \<longrightarrow>
            menu_open d (step d (MenuKeydown v ''Escape'' sh) s)
          \<and> aria_expanded (step d (MenuKeydown v ''Escape'' sh) s) = Some ''true'')
       \<and> (aria_expanded s \<noteq> Some ''true'' \<longrightarrow> step d (LinkClick v) s = s)"
proof -
  have st: "step d (MenuKeydown v ''Escape'' sh) s = toggleMenu d v s"
    using assms by (simp add: menuKeydown_def)
  have tc: "step d (ToggleClick v) s = toggleMenu d v s"
    using assms by simp
  have op: "menu_open d (toggleMenu d v s) \<and> aria_expanded (toggleMenu d v s) = Some ''true''"
    if "menu_closed d s"
    using that toggleMenu_opens(1,2) [of s d v] by (simp add: menu_closed_def menu_open_def)
  have lk: "aria_expanded s \<noteq> Some ''true'' \<longrightarrow> step d (LinkClick v) s = s"
    by (simp add: linkClick_def)
  from st tc op lk show ?thesis by simp
qed


theorem escape_toggles_closed_menu_witness:
  "menu_open demo_page
     (step demo_page (MenuKeydown (demo_view 0 3000) ''Escape'' False) (demo_state False False))
   \<and> aria_expanded
     (step demo_page (MenuKeydown (demo_view 0 3000) ''Escape'' False) (demo_state False False))
       = Some ''true''
   \<and> aria_expanded (demo_state False False) = Some ''false''
   \<and> step demo_page (LinkClick (demo_view 0 3000)) (demo_state False False) = demo_state False False"
proof -
  have a: "aria_expanded (demo_state False False) = Some ''false''"
    by (simp add: demo_state_def script_start_def init_defs dom_ops demo_page_def)
  then have n: "aria_expanded (demo_state False False) \<noteq> Some ''true''"
    by simp
  note e = escape_toggles_closed_menu [OF demo_nav(1), of "demo_view 0 3000" False "demo_state False False"]
  from e demo_nav(2) have "menu_open demo_page
     (step demo_page (MenuKeydown (demo_view 0 3000) ''Escape'' False) (demo_state False False))
   \<and> aria_expanded
     (step demo_page (MenuKeydown (demo_view 0 3000) ''Escape'' False) (demo_state False False))
       = Some ''true''"
    by blast
  moreover from e n
  have "step demo_page (LinkClick (demo_view 0 3000)) (demo_state False False) = demo_state False False"
    by blast
  ultimately show ?thesis using a by blast
qed

section \<open>Reduced motion\<close>

lemma renderLoop_reduced:
  "prefersReducedMotion s \<Longrightarrow>
     renderLoop d v s = updateScrollProgress d v (s\<lparr>currentScroll := scrollY v\<rparr>)"
  by (cases "cursorGlow d")
     (simp_all add: renderLoop_def updateParallax_def updateCursorGlow_def updateBurrGeometry_def
        updatePressureGauge_def)

lemma motion_hints_names:
  "h \<in> set motion_hints \<Longrightarrow> h \<noteq> ''--scroll-progress'' \<and> h \<noteq> ''overflow''"
  by (auto simp: motion_hints_def)

lemma step_reduced_style:
  assumes "prefersReducedMotion s" and "h \<in> set motion_hints"
  shows "style (step d e s) x h = style s x h"
proof -
  from assms(2) have h: "h \<noteq> ''--scroll-progress''" "h \<noteq> ''overflow''"
    using motion_hints_names by blast+
  show ?thesis
  proof (cases e)
    case (Frame v)
    with assms(1) h show ?thesis
      by (simp add: renderLoop_reduced updateScrollProgress_motion)
  next
    case (MouseMove v cx cy)
    with assms(1) show ?thesis by (simp add: onMouseMove_def)
  next
    case (RevealEntries es)
    then show ?thesis by (simp add: revealCallback_def dom_ops forEach_motion)
  next
    case (ProductEntries es)
    then show ?thesis
      by (simp add: productCallback_def productEntry_def Let_def dom_ops forEach_motion)
  next
    case (FooterEntries es)
    then show ?thesis by (simp add: footerCallback_def dom_ops forEach_motion)
  next
    case (Timeout i)
    then show ?thesis by (simp add: timeout_def fire_motion)
  next
    case (MagneticMove v el cx cy)
    with assms(1) show ?thesis by (simp add: magnetics_on_def)
  next
    case (MagneticLeave el)
    with assms(1) show ?thesis by (simp add: magnetics_on_def)
  next
    case (ToggleClick v)
    with h show ?thesis by (simp add: toggleMenu_motion)
  next
    case (LinkClick v)
    with h show ?thesis by (simp add: linkClick_def toggleMenu_motion)
  next
    case (MenuKeydown v k sh)
    with h show ?thesis
      by (simp add: menuKeydown_def toggleMenu_motion if_present_motion focus_def)
  next
    case AnchorClick
    then show ?thesis by simp
  qed
qed

lemma step_reduced_state:
  assumes "prefersReducedMotion s"
  shows "pressure_current (step d e s) = pressure_current s
       \<and> mouseX (step d e s) = mouseX s \<and> mouseY (step d e s) = mouseY s"
proof (cases e)
  case (Frame v)
  with assms show ?thesis
    by (simp add: renderLoop_reduced updateScrollProgress_motion)
next
  case (MouseMove v cx cy)
  with assms show ?thesis by (simp add: onMouseMove_def)
next
  case (RevealEntries es)
  then show ?thesis by (simp add: revealCallback_def dom_ops forEach_motion)
next
  case (ProductEntries es)
  then show ?thesis
    by (simp add: productCallback_def productEntry_def Let_def dom_ops forEach_motion)
next
  case (FooterEntries es)
  then show ?thesis by (simp add: footerCallback_def dom_ops forEach_motion)
next
  case (Timeout i)
  then show ?thesis by (simp add: timeout_def fire_motion)
next
  case (MagneticMove v el cx cy)
  with assms show ?thesis by (simp add: magnetics_on_def)
next
  case (MagneticLeave el)
  with assms show ?thesis by (simp add: magnetics_on_def)
next
  case (ToggleClick v)
  then show ?thesis by (simp add: toggleMenu_motion)
next
  case (LinkClick v)
  then show ?thesis by (simp add: linkClick_def toggleMenu_motion)
next
  case (MenuKeydown v k sh)
  then show ?thesis
    by (simp add: menuKeydown_def toggleMenu_motion if_present_motion focus_def)
next
  case AnchorClick
  then show ?thesis by simp
qed

lemma run_reduced:
  assumes "prefersReducedMotion s"
  shows "(\<forall>x h. h \<in> set motion_hints \<longrightarrow> style (run d es s) x h = style s x h)
       \<and> pressure_current (run d es s) = pressure_current s
       \<and> mouseX (run d es s) = mouseX s \<and> mouseY (run d es s) = mouseY s"
  using assms
proof (induction es arbitrary: s)
  case Nil
  show ?case by simp
next
  case (Cons e es)
  have r: "prefersReducedMotion (step d e s)"
    using Cons.prems by simp
  from Cons.IH [OF r] step_reduced_style [OF Cons.prems] step_reduced_state [OF Cons.prems, of d e]
  show ?case by simp
qed

lemma add_all_adds:
  "x \<in> set xs \<Longrightarrow> c \<in> classList (forEach xs (\<lambda>el. classList_add el c) s) x"
proof (induction xs arbitrary: s)
  case Nil
  then show ?case by simp
next
  case (Cons a xs)
  show ?case
  proof (cases "x = a")
    case True
    have "c \<in> classList (forEach xs (\<lambda>el. classList_add el c) (classList_add a c s)) x"
      by (rule forEach_invariant [where P = "\<lambda>t. c \<in> classList t x"])
         (auto simp: True dom_ops)
    then show ?thesis by simp
  next
    case False
    with Cons show ?thesis by simp
  qed
qed

lemma init_reduced:
  assumes "prefersReducedMotion s"
  shows "x \<in> set (revealElements d) \<Longrightarrow> ''is-visible'' \<in> classList (init d s) x"
    and "revealObserved (init d s) = revealObserved s"
    and "pressure_current (init d s) = pressure_current s"
    and "mouseX (init d s) = mouseX s" and "mouseY (init d s) = mouseY s"
proof -
  have r: "prefersReducedMotion (initIntro d s)"
    using assms by (simp add: initIntro_def dom_ops if_present_field [where g = prefersReducedMotion])
  have c: "classList (init d s) =
      classList (forEach (revealElements d) (\<lambda>el. classList_add el ''is-visible'') (initIntro d s))"
    using r by (simp add: init_def initScrollReveal_def initProductObserver_def
        initFooterObserver_def dom_ops forEach_classList split: option.splits)
  show "''is-visible'' \<in> classList (init d s) x" if "x \<in> set (revealElements d)"
    unfolding c using that by (rule add_all_adds)
  show "revealObserved (init d s) = revealObserved s"
    using r assms
    by (simp add: init_def initScrollReveal_def initProductObserver_def initFooterObserver_def
        initIntro_def dom_ops forEach_revealObserved split: option.splits)
  show "pressure_current (init d s) = pressure_current s" by simp
  show "mouseX (init d s) = mouseX s"
    by (simp add: init_defs dom_ops forEach_motion if_present_motion split: option.splits)
  show "mouseY (init d s) = mouseY s"
    by (simp add: init_defs dom_ops forEach_motion if_present_motion split: option.splits)
qed

subsection \<open>The observers that are attached whatever the preference\<close>

lemmas forEach_observers =
  forEach_field [where g = productObserved] forEach_field [where g = footerObserved]

lemmas if_present_observers =
  if_present_field [where g = productObserved] if_present_field [where g = footerObserved]

lemma observe_all: "productObserved (forEach xs product_observe s) = set xs \<union> productObserved s"
  by (induction xs arbitrary: s) (auto simp: product_observe_def)

lemma init_productObserved:
  "productObserved (init d s) = set (productSections d) \<union> productObserved s"
proof -
  have "productObserved (initScrollReveal d (initIntro d s)) = productObserved s"
    by (simp add: initScrollReveal_def initIntro_def dom_ops forEach_observers
        if_present_observers)
  then show ?thesis
    by (simp add: init_def initFooterObserver_def initProductObserver_def observe_all
        split: option.splits)
qed

lemma init_footerObserved:
  "footer d = Some f \<Longrightarrow> footerObserved (init d s) = insert f (footerObserved s)"
  by (simp add: init_defs dom_ops forEach_observers if_present_observers)

lemma fire_observers:
  "productObserved (fire d tm s) = productObserved s"
  "footerObserved (fire d tm s) = footerObserved s"
  by (cases tm; simp add: dom_ops if_present_observers)+

lemma toggleMenu_observers:
  "productObserved (toggleMenu d v s) = productObserved s"
  "footerObserved (toggleMenu d v s) = footerObserved s"
  by (simp_all add: toggleMenu_def Let_def dom_ops if_present_observers)

text \<open>No listener detaches the active-section observer or the footer observer.\<close>

lemma step_observers:
  "productObserved (step d e s) = productObserved s \<and> footerObserved (step d e s) = footerObserved s"
proof (cases e)
  case (Frame v)
  then show ?thesis
    by (simp add: renderLoop_def updateScrollProgress_def updatePressureGauge_def
        updateBurrGeometry_def updateCursorGlow_def updateParallax_def parallax_def Let_def
        dom_ops forEach_observers if_present_observers del: toFixed.simps split: option.splits)
next
  case (MouseMove v cx cy)
  then show ?thesis
    by (simp add: onMouseMove_def spotlight_def Let_def dom_ops forEach_observers
        del: toFixed.simps jdiv.simps)
next
  case (RevealEntries es)
  then show ?thesis by (simp add: revealCallback_def dom_ops forEach_observers)
next
  case (ProductEntries es)
  then show ?thesis
    by (simp add: productCallback_def productEntry_def Let_def dom_ops forEach_observers)
next
  case (FooterEntries es)
  then show ?thesis by (simp add: footerCallback_def dom_ops forEach_observers)
next
  case (Timeout i)
  then show ?thesis by (simp add: timeout_def fire_observers)
next
  case (MagneticMove v el cx cy)
  then show ?thesis by (simp add: magneticMove_def Let_def dom_ops del: jdiv.simps)
next
  case (MagneticLeave el)
  then show ?thesis by (simp add: magneticLeave_def dom_ops)
next
  case (ToggleClick v)
  then show ?thesis by (simp add: toggleMenu_observers)
next
  case (LinkClick v)
  then show ?thesis by (simp add: linkClick_def toggleMenu_observers)
next
  case (MenuKeydown v k sh)
  then show ?thesis
    by (simp add: menuKeydown_def toggleMenu_observers if_present_observers focus_def)
next
  case AnchorClick
  then show ?thesis by simp
qed

lemma run_observers:
  "productObserved (run d es s) = productObserved s \<and> footerObserved (run d es s) = footerObserved s"
  by (induction es arbitrary: s) (simp_all add: step_observers)

text \<open>
  C7, as amended. With the reduced-motion preference set when the script starts (and nothing
  observed yet): \<open>init\<close> marks every reveal target visible at once and the reveal observer
  watches no element, then and ever after; the active-section observer is attached to
  every product section and the footer observer to the footer all the same, and they stay
  attached; and through every later sequence of events, frames included, no parallax,
  glow, burr or pressure hint of any element changes, nor does the pressure scalar or the
  glow position.
\<close>

theorem reduced_motion_static:
  assumes "prefersReducedMotion s0" and "revealObserved s0 = {}"
  shows "(\<forall>x \<in> set (revealElements d).
            ''is-visible'' \<in> classList (init d s0) x
          \<and> ''is-visible'' \<in> classList (run d evs (init d s0)) x)
       \<and> revealObserved (init d s0) = {}
       \<and> revealObserved (run d evs (init d s0)) = {}
       \<and> set (productSections d) \<subseteq> productObserved (init d s0)
       \<and> set (productSections d) \<subseteq> productObserved (run d evs (init d s0))
       \<and> (\<forall>f. footer d = Some f \<longrightarrow>
             f \<in> footerObserved (init d s0) \<and> f \<in> footerObserved (run d evs (init d s0)))
       \<and> (\<forall>x h. h \<in> set motion_hints \<longrightarrow>
             style (run d evs (init d s0)) x h = style (init d s0) x h)
       \<and> (\<forall>v x h. h \<in> set motion_hints \<longrightarrow>
             style (step d (Frame v) (run d evs (init d s0))) x h = style (run d evs (init d s0)) x h)
       \<and> pressure_current (run d evs (init d s0)) = pressure_current s0
       \<and> mouseX (run d evs (init d s0)) = mouseX s0
       \<and> mouseY (run d evs (init d s0)) = mouseY s0"
proof -
  have r: "prefersReducedMotion (init d s0)"
    using assms(1) by simp
  have r': "prefersReducedMotion (run d evs (init d s0))"
    using r by simp
  have vis0: "''is-visible'' \<in> classList (init d s0) x" if "x \<in> set (revealElements d)" for x
    using init_reduced(1) [OF assms(1) that] .
  have vis: "''is-visible'' \<in> classList (run d evs (init d s0)) x"
    if "x \<in> set (revealElements d)" for x
    using vis0 [OF that] by (rule run_keeps_class) simp
  have obs0: "revealObserved (init d s0) = {}"
    using init_reduced(2) [OF assms(1)] assms(2) by simp
  have obs: "revealObserved (run d evs (init d s0)) = {}"
    using run_revealObserved [of d evs "init d s0"] obs0 by simp
  have po: "set (productSections d) \<subseteq> productObserved (init d s0)"
    "set (productSections d) \<subseteq> productObserved (run d evs (init d s0))"
    by (simp_all add: run_observers init_productObserved)
  have fo: "\<forall>f. footer d = Some f \<longrightarrow>
      f \<in> footerObserved (init d s0) \<and> f \<in> footerObserved (run d evs (init d s0))"
    by (simp add: run_observers init_footerObserved)
  note run_reduced [OF r, of d evs]
  then have hints: "\<forall>x h. h \<in> set motion_hints \<longrightarrow>
      style (run d evs (init d s0)) x h = style (init d s0) x h"
    and scal: "pressure_current (run d evs (init d s0)) = pressure_current s0"
      "mouseX (run d evs (init d s0)) = mouseX s0" "mouseY (run d evs (init d s0)) = mouseY s0"
    using init_reduced(3-5) [OF assms(1), of d] by simp_all
  have frames: "\<forall>v x h. h \<in> set motion_hints \<longrightarrow>
      style (step d (Frame v) (run d evs (init d s0))) x h = style (run d evs (init d s0)) x h"
    using step_reduced_style [OF r'] by blast
  from vis0 vis obs0 obs po fo hints frames scal show ?thesis by blast
qed

theorem reduced_motion_static_witness:
  "''is-visible'' \<in> classList (demo_state True False) 20
   \<and> ''is-visible'' \<in> classList
        (run demo_page [Frame (demo_view 150 3000), MouseMove (demo_view 150 3000) 600 700,
           Frame (demo_view 300 3000)] (demo_state True False)) 21
   \<and> revealObserved (demo_state True False) = {}
   \<and> 11 \<in> productObserved (demo_state True False)
   \<and> 9 \<in> footerObserved (demo_state True False)
   \<and> style
        (run demo_page [Frame (demo_view 150 3000), MouseMove (demo_view 150 3000) 600 700,
           Frame (demo_view 300 3000)] (demo_state True False)) 11 ''--pressure-level'' = None
   \<and> pressure_current
        (run demo_page [Frame (demo_view 150 3000), MouseMove (demo_view 150 3000) 600 700,
           Frame (demo_view 300 3000)] (demo_state True False)) = Num 0"
proof -
  let ?s0 = "script_start True False 0 (\<lambda>_. {}) (Some ''false'') None"
  let ?evs = "[Frame (demo_view 150 3000), MouseMove (demo_view 150 3000) 600 700,
    Frame (demo_view 300 3000)]"
  have r: "prefersReducedMotion ?s0" and o: "revealObserved ?s0 = {}"
    and p: "pressure_current ?s0 = Num 0"
    by (simp_all add: script_start_def)
  have m: "20 \<in> set (revealElements demo_page)" "21 \<in> set (revealElements demo_page)"
    "''--pressure-level'' \<in> set motion_hints" "11 \<in> set (productSections demo_page)"
    "footer demo_page = Some 9"
    by (simp_all add: demo_page_def motion_hints_def)
  have st: "style (init demo_page ?s0) 11 ''--pressure-level'' = None"
    by (simp add: script_start_def init_defs dom_ops demo_page_def)
  note th = reduced_motion_static [OF r o, of demo_page ?evs]
  from th m(1) have a: "''is-visible'' \<in> classList (init demo_page ?s0) 20"
    by blast
  from th m(2) have b: "''is-visible'' \<in> classList (run demo_page ?evs (init demo_page ?s0)) 21"
    by blast
  from th have c: "revealObserved (init demo_page ?s0) = {}"
    by blast
  from th m(4) have po: "11 \<in> productObserved (init demo_page ?s0)"
    by blast
  from th m(5) have fo: "9 \<in> footerObserved (init demo_page ?s0)"
    by blast
  from th m(3) have "style (run demo_page ?evs (init demo_page ?s0)) 11 ''--pressure-level''
      = style (init demo_page ?s0) 11 ''--pressure-level''"
    by blast
  with st have d: "style (run demo_page ?evs (init demo_page ?s0)) 11 ''--pressure-level'' = None"
    by simp
  from th p have e: "pressure_current (run demo_page ?evs (init demo_page ?s0)) = Num 0"
    by simp
  from a b c po fo d e show ?thesis
    unfolding demo_state_def by blast
qed

text \<open>
  C7 as first stated fails: the reveal observer is the only one the script makes conditional
  on the preference. With reduced motion set, \<open>init\<close> on the sample page attaches the
  active-section observer to the three product sections and the footer observer (the exit
  animation) to the footer; when the footer is reported intersecting the body gets the class
  \<open>is-footer-visible\<close>, and when a section is reported intersecting it is marked active.
\<close>

theorem reduced_motion_observers_attached:
  "prefersReducedMotion (demo_state True False)
   \<and> revealObserved (demo_state True False) = {}
   \<and> productObserved (demo_state True False) = {10, 11, 12}
   \<and> footerObserved (demo_state True False) = {9}
   \<and> ''is-footer-visible'' \<notin> classList (demo_state True False) 0
   \<and> ''is-footer-visible'' \<in> classList
        (step demo_page (FooterEntries [\<lparr>target = 9, isIntersecting = True\<rparr>])
          (demo_state True False)) 0
   \<and> ''is-active'' \<in> classList
        (step demo_page (ProductEntries [\<lparr>target = 11, isIntersecting = True\<rparr>])
          (demo_state True False)) 11"
  by (simp add: demo_state_def script_start_def init_defs dom_ops demo_page_def
      footerCallback_def productCallback_def productEntry_def Let_def insert_commute)

section \<open>Pointer sampling\<close>

lemma spotlight_out:
  assumes "\<not> (rect_top (getBoundingClientRect v sec) < innerHeight v
      \<and> rect_bottom (getBoundingClientRect v sec) > 0)"
  shows "spotlight v cx cy sec t = t"
  unfolding spotlight_def Let_def by (rule if_not_P) (rule assms)

lemma spotlight_other: "sec' \<noteq> sec \<Longrightarrow> style (spotlight v cx cy sec' t) sec = style t sec"
  by (simp add: spotlight_def Let_def setProperty_def del: toFixed.simps jdiv.simps)

lemma spotlight_in:
  assumes "rect_top (getBoundingClientRect v sec) < innerHeight v"
    and "rect_bottom (getBoundingClientRect v sec) > 0"
  shows "style (spotlight v cx cy sec t) sec ''--mx'' =
           Some (CNum (toFixed 3 (jdiv (jsub (Num cx) (Num (rect_left (getBoundingClientRect v sec))))
                                      (Num (rect_width (getBoundingClientRect v sec))))))"
    and "style (spotlight v cx cy sec t) sec ''--my'' =
           Some (CNum (toFixed 3 (jdiv (jsub (Num cy) (Num (rect_top (getBoundingClientRect v sec))))
                                      (Num (rect_height (getBoundingClientRect v sec))))))"
  using assms by (simp_all add: spotlight_def Let_def setProperty_def del: toFixed.simps jdiv.simps)

lemma spotlight_keeps:
  assumes "rect_top (getBoundingClientRect v sec) < innerHeight v"
    and "rect_bottom (getBoundingClientRect v sec) > 0"
    and "style t sec ''--mx'' =
           Some (CNum (toFixed 3 (jdiv (jsub (Num cx) (Num (rect_left (getBoundingClientRect v sec))))
                                      (Num (rect_width (getBoundingClientRect v sec))))))
       \<and> style t sec ''--my'' =
           Some (CNum (toFixed 3 (jdiv (jsub (Num cy) (Num (rect_top (getBoundingClientRect v sec))))
                                      (Num (rect_height (getBoundingClientRect v sec))))))"
  shows "style (spotlight v cx cy sec' t) sec ''--mx'' =
           Some (CNum (toFixed 3 (jdiv (jsub (Num cx) (Num (rect_left (getBoundingClientRect v sec))))
                                      (Num (rect_width (getBoundingClientRect v sec))))))
       \<and> style (spotlight v cx cy sec' t) sec ''--my'' =
           Some (CNum (toFixed 3 (jdiv (jsub (Num cy) (Num (rect_top (getBoundingClientRect v sec))))
                                      (Num (rect_height (getBoundingClientRect v sec))))))"
proof (cases "sec' = sec")
  case True
  with assms(1,2) show ?thesis by (simp add: spotlight_in)
next
  case False
  with assms(3) show ?thesis by (simp add: spotlight_other)
qed

lemma forEach_spotlight_in:
  assumes "rect_top (getBoundingClientRect v sec) < innerHeight v"
    and "rect_bottom (getBoundingClientRect v sec) > 0"
    and "sec \<in> set xs"
  shows "style (forEach xs (spotlight v cx cy) t) sec ''--mx'' =
           Some (CNum (toFixed 3 (jdiv (jsub (Num cx) (Num (rect_left (getBoundingClientRect v sec))))
                                      (Num (rect_width (getBoundingClientRect v sec))))))
       \<and> style (forEach xs (spotlight v cx cy) t) sec ''--my'' =
           Some (CNum (toFixed 3 (jdiv (jsub (Num cy) (Num (rect_top (getBoundingClientRect v sec))))
                                      (Num (rect_height (getBoundingClientRect v sec))))))"
  using assms(3)
proof (induction xs arbitrary: t)
  case Nil
  then show ?case by simp
next
  case (Cons a xs)
  show ?case
  proof (cases "a = sec")
    case True
    have "style (forEach xs (spotlight v cx cy) (spotlight v cx cy sec t)) sec ''--mx'' =
           Some (CNum (toFixed 3 (jdiv (jsub (Num cx) (Num (rect_left (getBoundingClientRect v sec))))
                                      (Num (rect_width (getBoundingClientRect v sec))))))
       \<and> style (forEach xs (spotlight v cx cy) (spotlight v cx cy sec t)) sec ''--my'' =
           Some (CNum (toFixed 3 (jdiv (jsub (Num cy) (Num (rect_top (getBoundingClientRect v sec))))
                                      (Num (rect_height (getBoundingClientRect v sec))))))"
    proof (rule forEach_invariant [where P = "\<lambda>u.
        style u sec ''--mx'' =
           Some (CNum (toFixed 3 (jdiv (jsub (Num cx) (Num (rect_left (getBoundingClientRect v sec))))
                                      (Num (rect_width (getBoundingClientRect v sec))))))
       \<and> style u sec ''--my'' =
           Some (CNum (toFixed 3 (jdiv (jsub (Num cy) (Num (rect_top (getBoundingClientRect v sec))))
                                      (Num (rect_height (getBoundingClientRect v sec))))))"], goal_cases)
      case 1
      show ?case using spotlight_in [OF assms(1,2)] by simp
    next
      case (2 x u)
      then show ?case using spotlight_keeps [OF assms(1,2)] by blast
    qed
    with True show ?thesis by simp
  next
    case False
    with Cons.prems have "sec \<in> set xs" by simp
    then show ?thesis
      using Cons.IH by simp
  qed
qed

lemma forEach_spotlight_out:
  assumes "\<not> (rect_top (getBoundingClientRect v sec) < innerHeight v
      \<and> rect_bottom (getBoundingClientRect v sec) > 0)"
  shows "style (forEach xs (spotlight v cx cy) t) sec = style t sec"
proof (rule forEach_invariant [where P = "\<lambda>u. style u sec = style t sec"], goal_cases)
  case 1
  show ?case by simp
next
  case (2 x u)
  show ?case
  proof (cases "x = sec")
    case True
    with assms 2 show ?thesis by (simp add: spotlight_out)
  next
    case False
    with 2 show ?thesis by (simp add: spotlight_other)
  qed
qed

lemma local_coordinate_unit:
  assumes "is_double w" and "0 < w" and "l \<le> c" and "c \<le> l + w"
  shows "in_unit (toFixed 3 (jdiv (jsub (Num c) (Num l)) (Num w)))"
proof -
  from assms(3,4) have "0 \<le> c - l" "c - l \<le> w" by linarith+
  from fl_between [OF is_double_0 assms(1) this] obtain a where
    a: "fl (c - l) = Num a" "0 \<le> a" "a \<le> w" by blast
  have "0 \<le> a / w" "a / w \<le> 1"
    using a(2,3) assms(2) by (simp_all add: divide_le_eq)
  from fl_between [OF is_double_0 is_double_1 this] obtain q where
    q: "fl (a / w) = Num q" "0 \<le> q" "q \<le> 1" by blast
  have "jdiv (jsub (Num c) (Num l)) (Num w) = Num q"
    using assms(2) by (simp add: a(1) q(1))
  then have "in_unit (jdiv (jsub (Num c) (Num l)) (Num w))"
    using q(2,3) by simp
  then show ?thesis by (rule toFixed_unit)
qed

text \<open>A box of no extent with the pointer on its edge: the quotient is \<open>0/0\<close>.\<close>

lemma local_coordinate_NaN: "toFixed 3 (jdiv (jsub (Num l) (Num l)) (Num 0)) = NaN"
  by simp

lemma onMouseMove_skipped:
  "isTouch s \<or> prefersReducedMotion s \<Longrightarrow>
     onMouseMove d v cx cy s = s\<lparr>targetMouseX := cx, targetMouseY := cy\<rparr>"
  by (auto simp: onMouseMove_def)

lemma onMouseMove_sampled:
  "\<not> isTouch s \<Longrightarrow> \<not> prefersReducedMotion s \<Longrightarrow>
     onMouseMove d v cx cy s =
       forEach (productSections d) (spotlight v cx cy) (s\<lparr>targetMouseX := cx, targetMouseY := cy\<rparr>)"
  by (simp add: onMouseMove_def)

lemma onMouseMove_target:
  "targetMouseX (onMouseMove d v cx cy s) = cx \<and> targetMouseY (onMouseMove d v cx cy s) = cy"
  by (simp add: onMouseMove_def spotlight_def Let_def setProperty_def
      forEach_field [where g = targetMouseX] forEach_field [where g = targetMouseY])

text \<open>
  C9, as amended. On a pointer move, when neither touch nor reduced motion applies, each
  content section whose box overlaps the viewport vertically gets \<open>--mx\<close> and \<open>--my\<close>: the
  pointer's offset from the left and top edge of the section's box divided by the box's
  width and height, each operation rounded to a double, printed to three decimals. A
  coordinate lies between 0 and 1 when the box has positive extent on that axis and the
  pointer is within it; nothing clamps it otherwise, and on a box of no extent with the
  pointer on its edge it is NaN. A section that does not overlap the viewport keeps its
  style. Under touch or reduced motion the handler only records the raw pointer position.
\<close>

theorem spotlight_sampling:
  "(\<not> isTouch s \<and> \<not> prefersReducedMotion s \<longrightarrow>
      (\<forall>sec \<in> set (productSections d).
         (rect_top (getBoundingClientRect v sec) < innerHeight v
            \<and> rect_bottom (getBoundingClientRect v sec) > 0 \<longrightarrow>
              style (onMouseMove d v cx cy s) sec ''--mx'' =
                Some (CNum (toFixed 3 (jdiv (jsub (Num cx) (Num (rect_left (getBoundingClientRect v sec))))
                                           (Num (rect_width (getBoundingClientRect v sec))))))
            \<and> style (onMouseMove d v cx cy s) sec ''--my'' =
                Some (CNum (toFixed 3 (jdiv (jsub (Num cy) (Num (rect_top (getBoundingClientRect v sec))))
                                           (Num (rect_height (getBoundingClientRect v sec))))))
            \<and> (is_double (rect_width (getBoundingClientRect v sec))
                 \<and> 0 < rect_width (getBoundingClientRect v sec)
                 \<and> rect_left (getBoundingClientRect v sec) \<le> cx
                 \<and> cx \<le> rect_left (getBoundingClientRect v sec) + rect_width (getBoundingClientRect v sec)
               \<longrightarrow> (\<exists>x. style (onMouseMove d v cx cy s) sec ''--mx'' = Some (CNum x) \<and> in_unit x))
            \<and> (is_double (rect_height (getBoundingClientRect v sec))
                 \<and> 0 < rect_height (getBoundingClientRect v sec)
                 \<and> rect_top (getBoundingClientRect v sec) \<le> cy
                 \<and> cy \<le> rect_top (getBoundingClientRect v sec) + rect_height (getBoundingClientRect v sec)
               \<longrightarrow> (\<exists>y. style (onMouseMove d v cx cy s) sec ''--my'' = Some (CNum y) \<and> in_unit y))
            \<and> (rect_width (getBoundingClientRect v sec) = 0
                 \<and> cx = rect_left (getBoundingClientRect v sec)
               \<longrightarrow> style (onMouseMove d v cx cy s) sec ''--mx'' = Some (CNum NaN))
            \<and> (rect_height (getBoundingClientRect v sec) = 0
                 \<and> cy = rect_top (getBoundingClientRect v sec)
               \<longrightarrow> style (onMouseMove d v cx cy s) sec ''--my'' = Some (CNum NaN)))
       \<and> (\<not> (rect_top (getBoundingClientRect v sec) < innerHeight v
              \<and> rect_bottom (getBoundingClientRect v sec) > 0) \<longrightarrow>
              style (onMouseMove d v cx cy s) sec = style s sec)))
   \<and> (isTouch s \<or> prefersReducedMotion s \<longrightarrow>
        onMouseMove d v cx cy s = s\<lparr>targetMouseX := cx, targetMouseY := cy\<rparr>)
   \<and> targetMouseX (onMouseMove d v cx cy s) = cx
   \<and> targetMouseY (onMouseMove d v cx cy s) = cy"
proof -
  have sampled: "(rect_top (getBoundingClientRect v sec) < innerHeight v
            \<and> rect_bottom (getBoundingClientRect v sec) > 0 \<longrightarrow>
              style (onMouseMove d v cx cy s) sec ''--mx'' =
                Some (CNum (toFixed 3 (jdiv (jsub (Num cx) (Num (rect_left (getBoundingClientRect v sec))))
                                           (Num (rect_width (getBoundingClientRect v sec))))))
            \<and> style (onMouseMove d v cx cy s) sec ''--my'' =
                Some (CNum (toFixed 3 (jdiv (jsub (Num cy) (Num (rect_top (getBoundingClientRect v sec))))
                                           (Num (rect_height (getBoundingClientRect v sec))))))
            \<and> (is_double (rect_width (getBoundingClientRect v sec))
                 \<and> 0 < rect_width (getBoundingClientRect v sec)
                 \<and> rect_left (getBoundingClientRect v sec) \<le> cx
                 \<and> cx \<le> rect_left (getBoundingClientRect v sec) + rect_width (getBoundingClientRect v sec)
               \<longrightarrow> (\<exists>x. style (onMouseMove d v cx cy s) sec ''--mx'' = Some (CNum x) \<and> in_unit x))
            \<and> (is_double (rect_height (getBoundingClientRect v sec))
                 \<and> 0 < rect_height (getBoundingClientRect v sec)
                 \<and> rect_top (getBoundingClientRect v sec) \<le> cy
                 \<and> cy \<le> rect_top (getBoundingClientRect v sec) + rect_height (getBoundingClientRect v sec)
               \<longrightarrow> (\<exists>y. style (onMouseMove d v cx cy s) sec ''--my'' = Some (CNum y) \<and> in_unit y))
            \<and> (rect_width (getBoundingClientRect v sec) = 0
                 \<and> cx = rect_left (getBoundingClientRect v sec)
               \<longrightarrow> style (onMouseMove d v cx cy s) sec ''--mx'' = Some (CNum NaN))
            \<and> (rect_height (getBoundingClientRect v sec) = 0
                 \<and> cy = rect_top (getBoundingClientRect v sec)
               \<longrightarrow> style (onMouseMove d v cx cy s) sec ''--my'' = Some (CNum NaN)))
       \<and> (\<not> (rect_top (getBoundingClientRect v sec) < innerHeight v
              \<and> rect_bottom (getBoundingClientRect v sec) > 0) \<longrightarrow>
              style (onMouseMove d v cx cy s) sec = style s sec)"
    if on: "\<not> isTouch s" "\<not> prefersReducedMotion s" and sec: "sec \<in> set (productSections d)"
    for sec
  proof (cases "rect_top (getBoundingClientRect v sec) < innerHeight v
            \<and> rect_bottom (getBoundingClientRect v sec) > 0")
    case True
    then have t: "rect_top (getBoundingClientRect v sec) < innerHeight v"
      and b: "rect_bottom (getBoundingClientRect v sec) > 0" by simp_all
    let ?r = "getBoundingClientRect v sec"
    note xy = forEach_spotlight_in [OF t b sec, of cx cy "s\<lparr>targetMouseX := cx, targetMouseY := cy\<rparr>",
        folded onMouseMove_sampled [OF on]]
    have ux: "in_unit (toFixed 3 (jdiv (jsub (Num cx) (Num (rect_left ?r))) (Num (rect_width ?r))))"
      if "is_double (rect_width ?r)" "0 < rect_width ?r" "rect_left ?r \<le> cx"
        "cx \<le> rect_left ?r + rect_width ?r"
      using that by (rule local_coordinate_unit)
    have uy: "in_unit (toFixed 3 (jdiv (jsub (Num cy) (Num (rect_top ?r))) (Num (rect_height ?r))))"
      if "is_double (rect_height ?r)" "0 < rect_height ?r" "rect_top ?r \<le> cy"
        "cy \<le> rect_top ?r + rect_height ?r"
      using that by (rule local_coordinate_unit)
    have nx: "toFixed 3 (jdiv (jsub (Num cx) (Num (rect_left ?r))) (Num (rect_width ?r))) = NaN"
      if "rect_width ?r = 0" "cx = rect_left ?r"
      unfolding that by (rule local_coordinate_NaN)
    have ny: "toFixed 3 (jdiv (jsub (Num cy) (Num (rect_top ?r))) (Num (rect_height ?r))) = NaN"
      if "rect_height ?r = 0" "cy = rect_top ?r"
      unfolding that by (rule local_coordinate_NaN)
    have zx: "rect_width ?r = 0 \<and> cx = rect_left ?r \<longrightarrow>
        style (onMouseMove d v cx cy s) sec ''--mx'' = Some (CNum NaN)"
      using xy nx by metis
    have zy: "rect_height ?r = 0 \<and> cy = rect_top ?r \<longrightarrow>
        style (onMouseMove d v cx cy s) sec ''--my'' = Some (CNum NaN)"
      using xy ny by metis
    from True xy ux uy zx zy show ?thesis
      by blast
  next
    case False
    then have "style (onMouseMove d v cx cy s) sec = style s sec"
      unfolding onMouseMove_sampled [OF on] by (simp add: forEach_spotlight_out)
    with False show ?thesis by blast
  qed
  from sampled onMouseMove_skipped [of s d v cx cy] onMouseMove_target [of d v cx cy s]
  show ?thesis by blast
qed

subsection \<open>The sample page under the pointer\<close>

lemma demo_boxes:
  "getBoundingClientRect (demo_view y sh) 10 = box 0 0 512 800"
  "getBoundingClientRect (demo_view y sh) 11 = box 0 200 1200 400"
  "getBoundingClientRect (demo_view y sh) 12 = box 0 900 1200 600"
  "innerHeight (demo_view y sh) = 800"
  "productSections demo_page = [10, 11, 12]"
  by (simp_all add: demo_view_def demo_page_def)

lemma fl_9 [simp]: "fl 9 = Num 9"
  using fl_int [of 9] by simp

lemma fl_300 [simp]: "fl 300 = Num 300"
  using fl_int [of 300] by simp

lemma fl_768 [simp]: "fl 768 = Num 768"
  using fl_int [of 768] by simp

lemma is_double_512 [simp]: "is_double 512"
  using is_double_int [of 512] by simp

text \<open>Pointer 9 pixels into a box 1200 wide: the double of 0.0075 lies below 0.0075, and
  the coordinate printed with three decimals is 0.007.\<close>

lemma local_coordinate_tie: "toFixed 3 (jdiv (jsub (Num 9) (Num 0)) (Num 1200)) = Num (7 / 1000)"
proof -
  define x :: real where "x = 8646911284551352 / 2 ^ 60"
  have "fl (3 / 400) = Num (of_int 8646911284551352 * 2 powi (- 8 - 52))"
    by (rule fl_eval) simp_all
  then have q: "fl (3 / 400) = Num x" by (simp add: x_def)
  have "jdiv (jsub (Num 9) (Num 0)) (Num 1200) = Num x"
    by (simp add: q)
  then show ?thesis by (simp add: x_def)
qed

lemma local_coordinate_375: "toFixed 3 (jdiv (jsub (Num 300) (Num 0)) (Num 800)) = Num (3 / 8)"
proof -
  have "(3 / 8 :: real) = of_int 3 * 2 powi (- 3)" by simp
  then have "fl (3 / 8) = Num (3 / 8)" by (rule fl_exact) simp_all
  then have "jdiv (jsub (Num 300) (Num 0)) (Num 800) = Num (3 / 8)"
    by simp
  then show ?thesis by simp
qed

lemma local_coordinate_outside: "toFixed 3 (jdiv (jsub (Num 768) (Num 0)) (Num 512)) = Num (3 / 2)"
proof -
  have "(3 / 2 :: real) = of_int 3 * 2 powi (- 1)" by simp
  then have "fl (3 / 2) = Num (3 / 2)" by (rule fl_exact) simp_all
  then have "jdiv (jsub (Num 768) (Num 0)) (Num 512) = Num (3 / 2)"
    by simp
  then show ?thesis by simp
qed

theorem spotlight_sampling_witness:
  "(\<exists>x. style (onMouseMove demo_page (demo_view 0 3000) 9 300 (demo_state False False)) 10 ''--mx''
          = Some (CNum x) \<and> in_unit x)
   \<and> style (onMouseMove demo_page (demo_view 0 3000) 9 300 (demo_state False False)) 10 ''--my''
        = Some (CNum (Num (3 / 8)))
   \<and> style (onMouseMove demo_page (demo_view 0 3000) 9 300 (demo_state False False)) 11 ''--mx''
        = Some (CNum (Num (7 / 1000)))
   \<and> style (onMouseMove demo_page (demo_view 0 3000) 9 300 (demo_state False False)) 12
        = style (demo_state False False) 12
   \<and> onMouseMove demo_page (demo_view 0 3000) 9 300 (demo_state True False)
        = (demo_state True False)\<lparr>targetMouseX := 9, targetMouseY := 300\<rparr>"
proof -
  let ?v = "demo_view 0 3000"
  let ?s = "demo_state False False"
  note on = spotlight_sampling [of ?s demo_page ?v 9 300]
  have fl: "\<not> isTouch ?s" "\<not> prefersReducedMotion ?s" "prefersReducedMotion (demo_state True False)"
    by (simp_all add: demo_flags)
  have m: "10 \<in> set (productSections demo_page)" "11 \<in> set (productSections demo_page)"
    "12 \<in> set (productSections demo_page)"
    by (simp_all add: demo_boxes)
  have in10: "rect_top (getBoundingClientRect ?v 10) < innerHeight ?v
      \<and> rect_bottom (getBoundingClientRect ?v 10) > 0"
    and in11: "rect_top (getBoundingClientRect ?v 11) < innerHeight ?v
      \<and> rect_bottom (getBoundingClientRect ?v 11) > 0"
    and px: "is_double (rect_width (getBoundingClientRect ?v 10))
      \<and> 0 < rect_width (getBoundingClientRect ?v 10)
      \<and> rect_left (getBoundingClientRect ?v 10) \<le> 9
      \<and> 9 \<le> rect_left (getBoundingClientRect ?v 10) + rect_width (getBoundingClientRect ?v 10)"
    and out12: "\<not> (rect_top (getBoundingClientRect ?v 12) < innerHeight ?v
      \<and> rect_bottom (getBoundingClientRect ?v 12) > 0)"
    by (simp_all add: demo_boxes box_def)
  have r10: "rect_top (getBoundingClientRect ?v 10) = 0" "rect_height (getBoundingClientRect ?v 10) = 800"
    and r11: "rect_left (getBoundingClientRect ?v 11) = 0" "rect_width (getBoundingClientRect ?v 11) = 1200"
    by (simp_all add: demo_boxes box_def)
  from on fl(1,2) m(1) in10 px
  have a: "\<exists>x. style (onMouseMove demo_page ?v 9 300 ?s) 10 ''--mx'' = Some (CNum x) \<and> in_unit x"
    by blast
  from on fl(1,2) m(1) in10
  have "style (onMouseMove demo_page ?v 9 300 ?s) 10 ''--my'' =
      Some (CNum (toFixed 3 (jdiv (jsub (Num 300) (Num (rect_top (getBoundingClientRect ?v 10))))
        (Num (rect_height (getBoundingClientRect ?v 10))))))"
    by blast
  then have b: "style (onMouseMove demo_page ?v 9 300 ?s) 10 ''--my'' = Some (CNum (Num (3 / 8)))"
    by (simp only: r10 local_coordinate_375)
  from on fl(1,2) m(2) in11
  have "style (onMouseMove demo_page ?v 9 300 ?s) 11 ''--mx'' =
      Some (CNum (toFixed 3 (jdiv (jsub (Num 9) (Num (rect_left (getBoundingClientRect ?v 11))))
        (Num (rect_width (getBoundingClientRect ?v 11))))))"
    by blast
  then have c: "style (onMouseMove demo_page ?v 9 300 ?s) 11 ''--mx'' = Some (CNum (Num (7 / 1000)))"
    by (simp only: r11 local_coordinate_tie)
  from on fl(1,2) m(3) out12
  have d: "style (onMouseMove demo_page ?v 9 300 ?s) 12 = style ?s 12"
    by blast
  from spotlight_sampling [of "demo_state True False" demo_page ?v 9 300] fl(3)
  have e: "onMouseMove demo_page ?v 9 300 (demo_state True False)
      = (demo_state True False)\<lparr>targetMouseX := 9, targetMouseY := 300\<rparr>"
    by blast
  from a b c d e show ?thesis by (intro conjI)
qed

text \<open>C9 as first stated fails when the pointer is outside a section that is on
  screen: with the pointer 768 pixels from the left and section 10, 512 pixels wide, filling
  the viewport from top to bottom, the horizontal coordinate published for section 10 is
  1.5.\<close>

theorem spotlight_coordinate_outside_unit:
  "\<not> isTouch (demo_state False False) \<and> \<not> prefersReducedMotion (demo_state False False)
   \<and> rect_top (getBoundingClientRect (demo_view 0 3000) 10) < innerHeight (demo_view 0 3000)
   \<and> rect_bottom (getBoundingClientRect (demo_view 0 3000) 10) > 0
   \<and> style (onMouseMove demo_page (demo_view 0 3000) 768 300 (demo_state False False)) 10 ''--mx''
       = Some (CNum (Num (3 / 2)))
   \<and> \<not> in_unit (Num (3 / 2))"
proof -
  let ?v = "demo_view 0 3000"
  have fl: "\<not> isTouch (demo_state False False)" "\<not> prefersReducedMotion (demo_state False False)"
    by (simp_all add: demo_flags)
  have t: "rect_top (getBoundingClientRect ?v 10) < innerHeight ?v"
    and b: "rect_bottom (getBoundingClientRect ?v 10) > 0"
    by (simp_all add: demo_boxes box_def)
  have m: "10 \<in> set (productSections demo_page)"
    by (simp add: demo_boxes)
  have r10: "rect_left (getBoundingClientRect ?v 10) = 0" "rect_width (getBoundingClientRect ?v 10) = 512"
    by (simp_all add: demo_boxes box_def)
  from forEach_spotlight_in [OF t b m, of 768 300
      "(demo_state False False)\<lparr>targetMouseX := 768, targetMouseY := 300\<rparr>",
      folded onMouseMove_sampled [OF fl]]
  have "style (onMouseMove demo_page ?v 768 300 (demo_state False False)) 10 ''--mx''
       = Some (CNum (Num (3 / 2)))"
    by (simp only: r10 local_coordinate_outside)
  with fl t b show ?thesis by simp
qed

end
